theory Spec2Isabelle
  imports Main "HOL-Library.AList" "HOL-Library.Char_ord" "HOL-Library.List_Lexorder"
begin

section \<open>Values, elements and the external services\<close>

text \<open>
  A value of the line-delimited state format after JSON parsing, as the JavaScript
  runtime holds it. An object is the list of its own enumerable properties in the order
  in which \<^verbatim>\<open>Object.keys\<close> lists them.
\<close>

datatype json =
    JNull
  | JBool bool
  | JNum int
  | JStr string
  | JArr "json list"
  | JObj "(string \<times> json) list"

type_synonym bytes = string

text \<open>
  Modelled from the spec: the element type and \<^verbatim>\<open>ElemID\<close> live in the adapter API
  package, which is not among the sources. An element is an opaque serializable value
  with a globally unique hierarchical identifier; the first segment of the full name
  (up to the first dot) is the adapter, that is the account, the element belongs to.
\<close>

record Element =
  fullName :: string
  elemValue :: json

definition adapterOf :: "string \<Rightarrow> string" where
  "adapterOf name = takeWhile (\<lambda>c. c \<noteq> CHR ''.'') name"

definition adapter :: "Element \<Rightarrow> string" where
  "adapter e = adapterOf (fullName e)"

datatype error =
    MissingS3Bucket
  | UnsupportedProvider string
  | StreamError string
  | DeserializeError
  | BackendIOError
  | RemoteMapFlushError

text \<open>
  The library functions the state module calls and that are not part of it: the digest,
  JSON printing, the element serialization service, gzip compression, the chain of
  gunzip and line-delimited JSON parser (\<open>None\<close> when the stream is corrupt or a line is
  not valid JSON), the combination of account hashes, the platform's end of line and the
  local storage path. They are parameters of the model.
\<close>

record env =
  toMD5 :: "string \<Rightarrow> string"
  safeJsonStringify :: "json \<Rightarrow> string"
  serializeStream :: "Element list \<Rightarrow> string"
  deserializeParsed :: "json \<Rightarrow> Element list option"
  createGZipWriteStream :: "string \<Rightarrow> bytes"
  bufferToString :: "bytes \<Rightarrow> string"
  gunzipJsonl :: "bytes \<Rightarrow> (nat \<times> json) list option"
  getHashFromHashes :: "string list \<Rightarrow> string"
  EOL :: string
  getLocalStoragePath :: "string \<Rightarrow> string"

section \<open>Parsing the durable state streams\<close>

record ParsedState =
  elements :: "Element list"
  accounts :: "json list"
  pathIndices :: "json list"

record NamedStream =
  name :: string
  stream :: bytes

fun isPlainObject :: "json \<Rightarrow> bool" where
  "isPlainObject (JObj kvs) = True"
| "isPlainObject v = False"

fun objectKeys :: "json \<Rightarrow> string list" where
  "objectKeys (JObj kvs) = map fst kvs"
| "objectKeys v = []"

text \<open>\<^verbatim>\<open>Array.prototype.concat\<close>: an array argument is spread, any other value is appended.\<close>

fun arrayConcat :: "json list \<Rightarrow> json \<Rightarrow> json list" where
  "arrayConcat xs (JArr vs) = xs @ vs"
| "arrayConcat xs v = xs @ [v]"

text \<open>
  The callback at the end of the stream chain in \<^verbatim>\<open>parseStateContent\<close>: one parsed line,
  \<open>key\<close> being the index of the line in its stream. The two logging branches leave the
  result as it is.
\<close>

fun parseStateLine :: "env \<Rightarrow> ParsedState \<Rightarrow> nat \<times> json \<Rightarrow> error + ParsedState" where
  "parseStateLine env res (key, v) =
     (if key = 0 then
        (case deserializeParsed env v of
           None \<Rightarrow> Inl DeserializeError
         | Some es \<Rightarrow> Inr (res\<lparr>elements := elements res @ es\<rparr>))
      else if key = 1 then
        (if isPlainObject v
         then Inr (res\<lparr>accounts := accounts res @ map JStr (objectKeys v)\<rparr>)
         else Inr (res\<lparr>accounts := accounts res @ [v]\<rparr>))
      else if key = 2 then Inr (res\<lparr>pathIndices := arrayConcat (pathIndices res) v\<rparr>)
      else if key = 3 then Inr res
      else Inr res)"

fun parseStateLines :: "env \<Rightarrow> ParsedState \<Rightarrow> (nat \<times> json) list \<Rightarrow> error + ParsedState" where
  "parseStateLines env res [] = Inr res"
| "parseStateLines env res (kv # rest) =
     (case parseStateLine env res kv of
        Inl e \<Rightarrow> Inl e
      | Inr res' \<Rightarrow> parseStateLines env res' rest)"

fun parseStateStreams :: "env \<Rightarrow> ParsedState \<Rightarrow> NamedStream list \<Rightarrow> error + ParsedState" where
  "parseStateStreams env res [] = Inr res"
| "parseStateStreams env res (ns # rest) =
     (case gunzipJsonl env (stream ns) of
        None \<Rightarrow> Inl (StreamError (name ns))
      | Some entries \<Rightarrow>
          (case parseStateLines env res entries of
             Inl e \<Rightarrow> Inl e
           | Inr res' \<Rightarrow> parseStateStreams env res' rest))"

definition parseStateContent :: "env \<Rightarrow> NamedStream list \<Rightarrow> error + ParsedState" where
  "parseStateContent env contentStreams =
     parseStateStreams env \<lparr>elements = [], accounts = [], pathIndices = []\<rparr> contentStreams"

section \<open>Content providers and remote maps\<close>

text \<open>
  A file prefix, held as the directory and the base name that \<^verbatim>\<open>path.dirname\<close> and
  \<^verbatim>\<open>path.basename\<close> give; \<^verbatim>\<open>path.join\<close> of a directory and a base name is the path made
  of the two.
\<close>

datatype path = Path (path_dirname: string) (path_basename: string)

definition path_join :: "string \<Rightarrow> string \<Rightarrow> path" where
  "path_join d b = Path d b"

record ContentAndHash =
  account :: string
  content :: bytes
  contentHash :: string

text \<open>
  Modelled from the spec: the content providers (\<^verbatim>\<open>content_providers\<close>) are not among
  the sources. A provider owns named blobs, one per account, under a file prefix. The
  file provider keeps them on the local file system whatever its local storage
  directory is; the object-storage provider keeps them in its bucket.
\<close>

datatype StateContentProvider =
    FileStateContentProvider string
  | S3StateContentProvider string string

datatype storage = LocalFileSystem | S3Bucket string string

fun storageOf :: "StateContentProvider \<Rightarrow> storage" where
  "storageOf (FileStateContentProvider localStorageDir) = LocalFileSystem"
| "storageOf (S3StateContentProvider workspaceId bucketName) = S3Bucket workspaceId bucketName"

text \<open>The state file of one account under a prefix.\<close>

type_synonym filePath = "path \<times> string"

datatype event =
    EvReadContents storage "filePath list"
  | EvWriteContents storage path
  | EvClear storage path
  | EvRename storage path string
  | EvMkdirp string
  | EvRemoteMapFlush

text \<open>
  Modelled from the spec: a remote map (\<^verbatim>\<open>remoteMap\<close> of the workspace package) is a
  persistent key-value map; it is held as an association list.
\<close>

definition remoteMap_set :: "'k \<Rightarrow> 'v \<Rightarrow> ('k \<times> 'v) list \<Rightarrow> ('k \<times> 'v) list" where
  "remoteMap_set k v m = AList.update k v m"

definition remoteMap_setAll :: "('k \<times> 'v) list \<Rightarrow> ('k \<times> 'v) list \<Rightarrow> ('k \<times> 'v) list" where
  "remoteMap_setAll entries m = fold (\<lambda>(k, v). AList.update k v) entries m"

definition remoteMap_get :: "('k \<times> 'v) list \<Rightarrow> 'k \<Rightarrow> 'v option" where
  "remoteMap_get m k = map_of m k"

definition remoteMap_clear :: "('k \<times> 'v) list \<Rightarrow> ('k \<times> 'v) list" where
  "remoteMap_clear m = []"

text \<open>Modelled from the spec: the elements source stores each element under its full name.\<close>

definition elementsSource_setAll :: "Element list \<Rightarrow> (string \<times> Element) list \<Rightarrow> (string \<times> Element) list" where
  "elementsSource_setAll es m = remoteMap_setAll (map (\<lambda>e. (fullName e, e)) es) m"

record StateData =
  sd_elements :: "(string \<times> Element) list"
  sd_pathIndex :: "(string \<times> json) list"
  sd_accounts :: "(string \<times> json list) list"
  saltoMetadata :: "(string \<times> string) list"

section \<open>The local state\<close>

text \<open>
  The variables of the closure \<^verbatim>\<open>localState\<close> (\<open>dirty\<close>, \<open>cacheDirty\<close>,
  \<open>contentsAndHash\<close>, \<open>currentFilePrefix\<close>, \<open>currentContentProvider\<close>), the variable of
  the in-memory state built around \<^verbatim>\<open>loadStateData\<close> (\<open>innerStateData\<close>), and what the
  closure acts on: the durable blobs of every storage, the persisted remote maps of the
  quick-access cache, which writes fail, and the trace of storage operations.
  A promise that has settled is its outcome: \<open>Inl\<close> a rejection, \<open>Inr\<close> a value.
\<close>

record LocalState =
  dirty :: bool
  cacheDirty :: bool
  contentsAndHash :: "(error + ContentAndHash list) option"
  currentFilePrefix :: path
  currentContentProvider :: StateContentProvider
  innerStateData :: "(error + StateData) option"
  durable :: "storage \<Rightarrow> path \<Rightarrow> ContentAndHash list"
  remoteMaps :: StateData
  writeFails :: "storage \<Rightarrow> bool"
  remoteMapFlushFails :: bool
  events :: "event list"

type_synonym 'a io = "LocalState \<Rightarrow> (error + 'a) \<times> LocalState"

subsection \<open>Provider operations\<close>

text \<open>Modelled from the spec: \<^verbatim>\<open>findStateFiles\<close>, \<^verbatim>\<open>getHash\<close>, \<^verbatim>\<open>readContents\<close>,
  \<^verbatim>\<open>writeContents\<close>, \<^verbatim>\<open>clear\<close> and \<^verbatim>\<open>rename\<close> of a content provider. A write that fails
  leaves the blobs as they were. \<^verbatim>\<open>rename\<close> takes the new base name, as its caller in
  \<^verbatim>\<open>updateConfig\<close> passes it.\<close>

definition findStateFiles :: "StateContentProvider \<Rightarrow> path \<Rightarrow> LocalState \<Rightarrow> filePath list" where
  "findStateFiles prov prefix s = map (\<lambda>c. (prefix, account c)) (durable s (storageOf prov) prefix)"

definition stateFile :: "StateContentProvider \<Rightarrow> LocalState \<Rightarrow> filePath \<Rightarrow> ContentAndHash list" where
  "stateFile prov s fp = filter (\<lambda>c. account c = snd fp) (durable s (storageOf prov) (fst fp))"

definition getHash :: "env \<Rightarrow> StateContentProvider \<Rightarrow> filePath list \<Rightarrow> LocalState \<Rightarrow> string" where
  "getHash env prov filePaths s =
     getHashFromHashes env (map contentHash (concat (map (stateFile prov s) filePaths)))"

definition readContents :: "StateContentProvider \<Rightarrow> filePath list \<Rightarrow> LocalState \<Rightarrow> NamedStream list \<times> LocalState" where
  "readContents prov filePaths s =
     (map (\<lambda>c. \<lparr>name = account c, stream = content c\<rparr>) (concat (map (stateFile prov s) filePaths)),
      s\<lparr>events := events s @ [EvReadContents (storageOf prov) filePaths]\<rparr>)"

definition writeContents :: "StateContentProvider \<Rightarrow> path \<Rightarrow> ContentAndHash list \<Rightarrow> unit io" where
  "writeContents prov prefix contents s =
     (let s' = s\<lparr>events := events s @ [EvWriteContents (storageOf prov) prefix]\<rparr>
      in if writeFails s (storageOf prov) then (Inl BackendIOError, s')
         else (Inr (),
               s'\<lparr>durable := (durable s)(storageOf prov := (durable s (storageOf prov))(prefix := contents))\<rparr>))"

definition clear :: "StateContentProvider \<Rightarrow> path \<Rightarrow> LocalState \<Rightarrow> LocalState" where
  "clear prov prefix s =
     s\<lparr>durable := (durable s)(storageOf prov := (durable s (storageOf prov))(prefix := [])),
       events := events s @ [EvClear (storageOf prov) prefix]\<rparr>"

definition rename :: "StateContentProvider \<Rightarrow> path \<Rightarrow> string \<Rightarrow> LocalState \<Rightarrow> LocalState" where
  "rename prov oldPrefix newBase s =
     s\<lparr>durable := (durable s)(storageOf prov :=
          (durable s (storageOf prov))
            (oldPrefix := [],
             path_join (path_dirname oldPrefix) newBase := durable s (storageOf prov) oldPrefix)),
       events := events s @ [EvRename (storageOf prov) oldPrefix newBase]\<rparr>"

text \<open>Modelled from the spec: \<^verbatim>\<open>loadPathIndex\<close> turns the parsed entries
  \<^verbatim>\<open>[identifier, paths]\<close> into the entries of the path index; a parsed value that is not
  such a pair carries no identifier and yields no entry.\<close>

fun loadPathEntry :: "json \<Rightarrow> (string \<times> json) list" where
  "loadPathEntry (JArr (JStr k # v # rest)) = [(k, v)]"
| "loadPathEntry v = []"

definition loadPathIndex :: "json list \<Rightarrow> (string \<times> json) list" where
  "loadPathIndex parsedEntries = concat (map loadPathEntry parsedEntries)"

subsection \<open>Loading\<close>

definition setDirty :: "LocalState \<Rightarrow> LocalState" where
  "setDirty s = s\<lparr>dirty := True, contentsAndHash := None\<rparr>"

definition syncQuickAccessStateData ::
  "env \<Rightarrow> StateData \<Rightarrow> filePath list \<Rightarrow> string \<Rightarrow> StateData io" where
  "syncQuickAccessStateData env stateData filePaths newHash s =
     (let (streams, s1) = readContents (currentContentProvider s) filePaths s
      in case parseStateContent env streams of
           Inl e \<Rightarrow> (Inl e, s1)
         | Inr res \<Rightarrow>
             (Inr (stateData\<lparr>
                sd_elements := elementsSource_setAll (elements res) (remoteMap_clear (sd_elements stateData)),
                sd_pathIndex := remoteMap_setAll (loadPathIndex (pathIndices res)) (remoteMap_clear (sd_pathIndex stateData)),
                sd_accounts := remoteMap_set ''account_names'' (accounts res) (remoteMap_clear (sd_accounts stateData)),
                saltoMetadata := remoteMap_set ''hash'' newHash (saltoMetadata stateData)\<rparr>),
              s1))"

text \<open>
  \<^verbatim>\<open>loadStateData\<close>. The quick-access state data that \<^verbatim>\<open>state.buildStateData\<close> builds
  (a function that is not among the sources) are the persisted remote maps of the
  environment.
\<close>

definition loadStateData :: "env \<Rightarrow> StateData io" where
  "loadStateData env s =
     (let quickAccessStateData = remoteMaps s;
          filePaths = findStateFiles (currentContentProvider s) (currentFilePrefix s) s;
          stateFilesHash = getHash env (currentContentProvider s) filePaths s;
          quickAccessHash =
            (case remoteMap_get (saltoMetadata quickAccessStateData) ''hash'' of
               Some h \<Rightarrow> h
             | None \<Rightarrow> toMD5 env (safeJsonStringify env (JArr [])))
      in if quickAccessHash \<noteq> stateFilesHash then
           (case syncQuickAccessStateData env quickAccessStateData filePaths stateFilesHash s of
              (Inl e, s1) \<Rightarrow> (Inl e, s1)
            | (Inr sd, s1) \<Rightarrow> (Inr sd, s1\<lparr>cacheDirty := True\<rparr>))
         else (Inr quickAccessStateData, s))"

subsection \<open>The in-memory state\<close>

text \<open>
  Modelled from the spec: \<^verbatim>\<open>state.buildInMemState\<close> is not among the sources. It loads
  the state data on first access and keeps the outcome; its operations read and update
  the loaded data, \<^verbatim>\<open>flush\<close> persists the remote maps, and \<^verbatim>\<open>updateConfig\<close> has nothing to
  do for the in-memory state.
\<close>

definition stateData :: "env \<Rightarrow> StateData io" where
  "stateData env s =
     (case innerStateData s of
        Some r \<Rightarrow> (r, s)
      | None \<Rightarrow> (let (r, s1) = loadStateData env s in (r, s1\<lparr>innerStateData := Some r\<rparr>)))"

definition inMemState_getAll :: "env \<Rightarrow> Element list io" where
  "inMemState_getAll env s =
     (case stateData env s of
        (Inl e, s1) \<Rightarrow> (Inl e, s1)
      | (Inr sd, s1) \<Rightarrow> (Inr (map snd (sd_elements sd)), s1))"

definition inMemState_getPathIndex :: "env \<Rightarrow> (string \<times> json) list io" where
  "inMemState_getPathIndex env s =
     (case stateData env s of
        (Inl e, s1) \<Rightarrow> (Inl e, s1)
      | (Inr sd, s1) \<Rightarrow> (Inr (sd_pathIndex sd), s1))"

definition inMemState_set :: "env \<Rightarrow> Element \<Rightarrow> unit io" where
  "inMemState_set env element s =
     (case stateData env s of
        (Inl e, s1) \<Rightarrow> (Inl e, s1)
      | (Inr sd, s1) \<Rightarrow>
          (Inr (), s1\<lparr>innerStateData :=
             Some (Inr (sd\<lparr>sd_elements := remoteMap_set (fullName element) element (sd_elements sd)\<rparr>))\<rparr>))"

definition inMemState_setHash :: "env \<Rightarrow> string \<Rightarrow> unit io" where
  "inMemState_setHash env newHash s =
     (case stateData env s of
        (Inl e, s1) \<Rightarrow> (Inl e, s1)
      | (Inr sd, s1) \<Rightarrow>
          (Inr (), s1\<lparr>innerStateData :=
             Some (Inr (sd\<lparr>saltoMetadata := remoteMap_set ''hash'' newHash (saltoMetadata sd)\<rparr>))\<rparr>))"

definition inMemState_flush :: "env \<Rightarrow> unit io" where
  "inMemState_flush env s =
     (case stateData env s of
        (Inl e, s1) \<Rightarrow> (Inl e, s1)
      | (Inr sd, s1) \<Rightarrow>
          (if remoteMapFlushFails s1 then (Inl RemoteMapFlushError, s1)
           else (Inr (), s1\<lparr>remoteMaps := sd, events := events s1 @ [EvRemoteMapFlush]\<rparr>)))"

subsection \<open>Serialization per account\<close>

text \<open>\<^verbatim>\<open>_.groupBy\<close>: the keys in the order of their first occurrence, each with the items
  of that key in their original order.\<close>

fun firstOccurrences :: "'a list \<Rightarrow> 'a list" where
  "firstOccurrences [] = []"
| "firstOccurrences (x # xs) = x # filter (\<lambda>y. y \<noteq> x) (firstOccurrences xs)"

definition groupBy :: "('a \<Rightarrow> 'k) \<Rightarrow> 'a list \<Rightarrow> ('k \<times> 'a list) list" where
  "groupBy f xs = map (\<lambda>k. (k, filter (\<lambda>x. f x = k) xs)) (firstOccurrences (map f xs))"

text \<open>Modelled from the spec: \<^verbatim>\<open>serializePathIndexByAccount\<close> prints, for each account,
  the entries of the path index whose identifier belongs to the account as an array of
  \<^verbatim>\<open>[identifier, paths]\<close> pairs.\<close>

definition pathIndexJson :: "(string \<times> json) list \<Rightarrow> json" where
  "pathIndexJson entries = JArr (map (\<lambda>(k, v). JArr [JStr k, v]) entries)"

definition serializePathIndexByAccount :: "env \<Rightarrow> (string \<times> json) list \<Rightarrow> (string \<times> string) list" where
  "serializePathIndexByAccount env entries =
     map (\<lambda>(a, es). (a, safeJsonStringify env (pathIndexJson es))) (groupBy (\<lambda>e. adapterOf (fst e)) entries)"

definition yieldWithEOL :: "env \<Rightarrow> string list \<Rightarrow> string" where
  "yieldWithEOL env streams = concat (map (\<lambda>st. st @ EOL env) streams)"

text \<open>\<^verbatim>\<open>getStateStream\<close>: the three lines of one account. The first argument is the
  account's entry of \<open>accountToElementStreams\<close>, which the caller iterates.\<close>

definition getStateStream :: "env \<Rightarrow> string \<Rightarrow> (string \<times> string) list \<Rightarrow> string \<Rightarrow> string" where
  "getStateStream env accountElementStream accountToPathIndex acc =
     yieldWithEOL env
       [accountElementStream,
        safeJsonStringify env (JStr acc),
        (case map_of accountToPathIndex acc of Some t \<Rightarrow> t | None \<Rightarrow> ''[]'')]"

definition createStateTextPerAccount :: "env \<Rightarrow> (string \<times> string) list io" where
  "createStateTextPerAccount env s =
     (case inMemState_getAll env s of
        (Inl e, s1) \<Rightarrow> (Inl e, s1)
      | (Inr elems, s1) \<Rightarrow>
          (let elementsByAccount = groupBy adapter elems;
               accountToElementStreams =
                 map (\<lambda>(a, accountElements). (a, serializeStream env (sort_key fullName accountElements)))
                   elementsByAccount
           in case inMemState_getPathIndex env s1 of
                (Inl e, s2) \<Rightarrow> (Inl e, s2)
              | (Inr entries, s2) \<Rightarrow>
                  (let accountToPathIndex = serializePathIndexByAccount env entries
                   in (Inr (map (\<lambda>(a, val). (a, getStateStream env val accountToPathIndex a))
                              accountToElementStreams),
                       s2))))"

definition calculateContentAndHash :: "env \<Rightarrow> ContentAndHash list io" where
  "calculateContentAndHash env s =
     (case createStateTextPerAccount env s of
        (Inl e, s1) \<Rightarrow> (Inl e, s1)
      | (Inr stateTextPerAccount, s1) \<Rightarrow>
          (Inr (map (\<lambda>(a, fileContent).
                  (let c = createGZipWriteStream env fileContent
                   in \<lparr>account = a, content = c, contentHash = toMD5 env (bufferToString env c)\<rparr>))
                stateTextPerAccount),
           s1))"

text \<open>The promise is stored whatever its outcome: a rejection is memoized as well.\<close>

definition getContentAndHash :: "env \<Rightarrow> LocalState \<Rightarrow> (error + ContentAndHash list) \<times> LocalState" where
  "getContentAndHash env s =
     (case contentsAndHash s of
        Some r \<Rightarrow> (r, s)
      | None \<Rightarrow> (let (r, s1) = calculateContentAndHash env s in (r, s1\<lparr>contentsAndHash := Some r\<rparr>)))"

subsection \<open>Operations of the state\<close>

definition calculateHashImpl :: "env \<Rightarrow> unit io" where
  "calculateHashImpl env s =
     (if \<not> dirty s then (Inr (), s)
      else case getContentAndHash env s of
             (Inl e, s1) \<Rightarrow> (Inl e, s1)
           | (Inr contents, s1) \<Rightarrow>
               inMemState_setHash env (getHashFromHashes env (map contentHash contents)) s1)"

definition state_set :: "env \<Rightarrow> Element \<Rightarrow> unit io" where
  "state_set env element s =
     (case inMemState_set env element s of
        (Inl e, s1) \<Rightarrow> (Inl e, s1)
      | (Inr u, s1) \<Rightarrow> (Inr (), setDirty s1))"

text \<open>Modelled from the spec: \<^verbatim>\<open>mkdirp\<close> of the file package ensures that the destination
  directory exists; the call is recorded in the trace.\<close>

definition mkdirp :: "string \<Rightarrow> LocalState \<Rightarrow> LocalState" where
  "mkdirp d s = s\<lparr>events := events s @ [EvMkdirp d]\<rparr>"

definition flush :: "env \<Rightarrow> unit io" where
  "flush env s =
     (if \<not> dirty s then
        (if cacheDirty s then
           (case inMemState_flush env s of
              (Inl e, s1) \<Rightarrow> (Inl e, s1)
            | (Inr u, s1) \<Rightarrow> (Inr (), s1\<lparr>cacheDirty := False\<rparr>))
         else (Inr (), s))
      else
        (let s0 = mkdirp (path_dirname (currentFilePrefix s)) s
         in case getContentAndHash env s0 of
              (Inl e, s1) \<Rightarrow> (Inl e, s1)
            | (Inr contents, s1) \<Rightarrow>
                (let updatedHash = getHashFromHashes env (map contentHash contents)
                 in case writeContents (currentContentProvider s1) (currentFilePrefix s1) contents s1 of
                      (Inl e, s2) \<Rightarrow> (Inl e, s2)
                    | (Inr u, s2) \<Rightarrow>
                        (case inMemState_setHash env updatedHash s2 of
                           (Inl e, s3) \<Rightarrow> (Inl e, s3)
                         | (Inr u, s3) \<Rightarrow>
                             (case inMemState_flush env s3 of
                                (Inl e, s4) \<Rightarrow> (Inl e, s4)
                              | (Inr u, s4) \<Rightarrow> (Inr (), s4\<lparr>dirty := False\<rparr>))))))"

subsection \<open>Changing the storage backend\<close>

record S3Options =
  bucket :: "string option"

record FileOptions =
  localStorageDir :: "string option"

record StateOptions =
  fileOptions :: "FileOptions option"
  s3Options :: "S3Options option"

record StateConfig =
  provider :: string
  options :: "StateOptions option"

record UpdateConfigArgs =
  workspaceId :: string
  stateConfig :: "StateConfig option"

definition getStateContentProvider :: "env \<Rightarrow> string \<Rightarrow> StateConfig option \<Rightarrow> error + StateContentProvider" where
  "getStateContentProvider env wsId cfg =
     (let config = (case cfg of None \<Rightarrow> \<lparr>provider = ''file'', options = None\<rparr> | Some c \<Rightarrow> c)
      in if provider config = ''file'' then
           Inr (FileStateContentProvider
                  (case Option.bind (Option.bind (options config) fileOptions) localStorageDir of
                     Some d \<Rightarrow> d
                   | None \<Rightarrow> getLocalStoragePath env wsId))
         else if provider config = ''s3'' then
           (case Option.bind (options config) s3Options of
              None \<Rightarrow> Inl MissingS3Bucket
            | Some opts \<Rightarrow>
                (case bucket opts of
                   None \<Rightarrow> Inl MissingS3Bucket
                 | Some b \<Rightarrow> Inr (S3StateContentProvider wsId b)))
         else Inl (UnsupportedProvider (provider config)))"

text \<open>Modelled from the spec: the in-memory state has no configuration to update.\<close>

definition inMemState_updateConfig :: "UpdateConfigArgs \<Rightarrow> unit io" where
  "inMemState_updateConfig args s = (Inr (), s)"

definition tempPrefixOf :: "path \<Rightarrow> path" where
  "tempPrefixOf prefix = path_join (path_dirname prefix) (''.tmp_'' @ path_basename prefix)"

text \<open>
  \<^verbatim>\<open>updateConfig\<close> up to and including the write of the contents under the temporary
  prefix by the new provider: the state in which a run that stops before the old
  content is cleared leaves the workspace.
\<close>

definition updateConfig_writeNew :: "env \<Rightarrow> UpdateConfigArgs \<Rightarrow> (StateContentProvider \<times> path) io" where
  "updateConfig_writeNew env args s =
     (case getStateContentProvider env (workspaceId args) (stateConfig args) of
        Inl e \<Rightarrow> (Inl e, s)
      | Inr newProvider \<Rightarrow>
          (case getContentAndHash env s of
             (Inl e, s1) \<Rightarrow> (Inl e, s1)
           | (Inr contents, s1) \<Rightarrow>
               (let tempPrefix = tempPrefixOf (currentFilePrefix s1)
                in case writeContents newProvider tempPrefix contents s1 of
                     (Inl e, s2) \<Rightarrow> (Inl e, s2)
                   | (Inr u, s2) \<Rightarrow> (Inr (newProvider, tempPrefix), s2))))"

definition updateConfig :: "env \<Rightarrow> UpdateConfigArgs \<Rightarrow> unit io" where
  "updateConfig env args s =
     (case updateConfig_writeNew env args s of
        (Inl e, s2) \<Rightarrow> (Inl e, s2)
      | (Inr (newProvider, tempPrefix), s2) \<Rightarrow>
          (let s3 = clear (currentContentProvider s2) (currentFilePrefix s2) s2;
               s4 = rename newProvider tempPrefix (path_basename (currentFilePrefix s3)) s3;
               s5 = s4\<lparr>currentContentProvider := newProvider\<rparr>
           in inMemState_updateConfig args s5))"

text \<open>The closure as \<^verbatim>\<open>localState\<close> creates it, over a given storage.\<close>

definition localState ::
  "path \<Rightarrow> StateContentProvider \<Rightarrow> (storage \<Rightarrow> path \<Rightarrow> ContentAndHash list) \<Rightarrow> StateData \<Rightarrow> LocalState" where
  "localState filePrefix contentProvider blobs maps =
     \<lparr>dirty = False, cacheDirty = False, contentsAndHash = None,
      currentFilePrefix = filePrefix, currentContentProvider = contentProvider,
      innerStateData = None, durable = blobs, remoteMaps = maps,
      writeFails = (\<lambda>_. False), remoteMapFlushFails = False, events = []\<rparr>"

section \<open>Location cache pool\<close>

text \<open>
  Modelled from the spec: the pool itself (\<^verbatim>\<open>remote_map/location_cache.ts\<close>) and the
  counters module are not among the sources; only their test suite is. The definitions
  below follow section 4.4 of the specification: the pool maps a location key to a
  resource and a reference count, \<^verbatim>\<open>get\<close> shares an existing resource and records a
  reuse event or creates a fresh one with reference count 1 and records a created
  event, and \<^verbatim>\<open>release\<close> decrements the count and removes the entry when the count
  reaches zero. The per-location event counters are part of the pool state.
\<close>

record PoolEntry =
  resource :: nat
  refcount :: nat

record LocationCache =
  location :: string
  capacity :: nat
  underlying :: nat

record LocationCachePool =
  poolEntries :: "string \<Rightarrow> PoolEntry option"
  nextResource :: nat
  LocationCacheCreated :: "string \<Rightarrow> nat"
  LocationCacheReuse :: "string \<Rightarrow> nat"

definition createLocationCachePool :: LocationCachePool where
  "createLocationCachePool =
     \<lparr>poolEntries = (\<lambda>_. None), nextResource = 0,
      LocationCacheCreated = (\<lambda>_. 0), LocationCacheReuse = (\<lambda>_. 0)\<rparr>"

text \<open>Modelled from the spec: \<^verbatim>\<open>get(location, capacityHint)\<close>.\<close>

definition pool_get :: "string \<Rightarrow> nat \<Rightarrow> LocationCachePool \<Rightarrow> LocationCache \<times> LocationCachePool" where
  "pool_get loc cap p =
     (case poolEntries p loc of
        Some e \<Rightarrow>
          (\<lparr>location = loc, capacity = cap, underlying = resource e\<rparr>,
           p\<lparr>poolEntries := (poolEntries p)(loc \<mapsto> e\<lparr>refcount := refcount e + 1\<rparr>),
             LocationCacheReuse := (LocationCacheReuse p)(loc := LocationCacheReuse p loc + 1)\<rparr>)
      | None \<Rightarrow>
          (\<lparr>location = loc, capacity = cap, underlying = nextResource p\<rparr>,
           p\<lparr>poolEntries := (poolEntries p)(loc \<mapsto> \<lparr>resource = nextResource p, refcount = 1\<rparr>),
             nextResource := nextResource p + 1,
             LocationCacheCreated := (LocationCacheCreated p)(loc := LocationCacheCreated p loc + 1)\<rparr>))"

text \<open>Modelled from the spec: \<^verbatim>\<open>release(handle)\<close>.\<close>

definition pool_release :: "LocationCache \<Rightarrow> LocationCachePool \<Rightarrow> LocationCachePool" where
  "pool_release h p =
     (case poolEntries p (location h) of
        None \<Rightarrow> p
      | Some e \<Rightarrow>
          (if refcount e - 1 = 0
           then p\<lparr>poolEntries := (poolEntries p)(location h := None)\<rparr>
           else p\<lparr>poolEntries := (poolEntries p)(location h \<mapsto> e\<lparr>refcount := refcount e - 1\<rparr>)\<rparr>))"

text \<open>\<^verbatim>\<open>_.times(n, () => pool.get(loc, cap))\<close> of the test suite: the handles in call order.\<close>

fun pool_get_times :: "nat \<Rightarrow> string \<Rightarrow> nat \<Rightarrow> LocationCachePool \<Rightarrow> LocationCache list \<times> LocationCachePool" where
  "pool_get_times 0 loc cap p = ([], p)"
| "pool_get_times (Suc n) loc cap p =
     (let (h, p') = pool_get loc cap p;
          (hs, p'') = pool_get_times n loc cap p'
      in (h # hs, p''))"

text \<open>\<^verbatim>\<open>caches.forEach(cache => pool.release(cache))\<close>.\<close>

fun pool_release_all :: "LocationCache list \<Rightarrow> LocationCachePool \<Rightarrow> LocationCachePool" where
  "pool_release_all [] p = p"
| "pool_release_all (h # hs) p = pool_release_all hs (pool_release h p)"

section \<open>Observations on the trace and the invariant of the closure\<close>

fun isDurableWrite :: "event \<Rightarrow> bool" where
  "isDurableWrite (EvWriteContents st p) = True"
| "isDurableWrite (EvClear st p) = True"
| "isDurableWrite (EvRename st p b) = True"
| "isDurableWrite e = False"

fun isReadContents :: "event \<Rightarrow> bool" where
  "isReadContents (EvReadContents st fps) = True"
| "isReadContents e = False"

text \<open>
  Content and hash are only ever computed from loaded state data, so memoized
  contents come with state data that loaded successfully.
\<close>

definition memoLoaded :: "LocalState \<Rightarrow> bool" where
  "memoLoaded s \<longleftrightarrow>
     (case contentsAndHash s of
        Some (Inr contents) \<Rightarrow> (case innerStateData s of Some (Inr sd) \<Rightarrow> True | _ \<Rightarrow> False)
      | _ \<Rightarrow> True)"

text \<open>
  What a lazy load leaves alone: every variable of the closure except \<open>cacheDirty\<close>,
  \<open>innerStateData\<close> and the memoized content, every blob and remote map; the trace grows
  by reads only.
\<close>

definition loadFrame :: "LocalState \<Rightarrow> LocalState \<Rightarrow> bool" where
  "loadFrame s s' \<longleftrightarrow>
     dirty s' = dirty s \<and> currentFilePrefix s' = currentFilePrefix s
   \<and> currentContentProvider s' = currentContentProvider s
   \<and> durable s' = durable s \<and> remoteMaps s' = remoteMaps s
   \<and> writeFails s' = writeFails s \<and> remoteMapFlushFails s' = remoteMapFlushFails s
   \<and> (\<exists>evs. events s' = events s @ evs \<and> list_all isReadContents evs)"

text \<open>The trace without the reads.\<close>

definition operations :: "event list \<Rightarrow> event list" where
  "operations evs = filter (\<lambda>e. \<not> isReadContents e) evs"

definition durableWrites :: "event list \<Rightarrow> event list" where
  "durableWrites evs = filter isDurableWrite evs"

section \<open>The contract of the library codec\<close>

text \<open>
  What the state module relies on from the libraries when it reads back what it wrote:
  decompressing and parsing the compressed stream of an account gives its three lines
  at the indices 0, 1 and 2, the first of which deserializes to the elements that were
  serialized, the second being the account name and the third the printed path index
  entries. The contract is stated for the streams of one state.
\<close>

definition pathEntriesOf :: "string \<Rightarrow> (string \<times> json) list \<Rightarrow> (string \<times> json) list" where
  "pathEntriesOf a entries = filter (\<lambda>e. adapterOf (fst e) = a) entries"

definition accountRoundTrip :: "env \<Rightarrow> StateData \<Rightarrow> string \<Rightarrow> Element list \<Rightarrow> bool" where
  "accountRoundTrip env sd a es \<longleftrightarrow>
     (\<exists>j0. gunzipJsonl env
              (createGZipWriteStream env
                 (getStateStream env (serializeStream env (sort_key fullName es))
                    (serializePathIndexByAccount env (sd_pathIndex sd)) a))
            = Some [(0, j0), (1, JStr a), (2, pathIndexJson (pathEntriesOf a (sd_pathIndex sd)))]
          \<and> deserializeParsed env j0 = Some (sort_key fullName es))"

definition codecRoundTrip :: "env \<Rightarrow> StateData \<Rightarrow> bool" where
  "codecRoundTrip env sd \<longleftrightarrow>
     list_all (\<lambda>(a, es). accountRoundTrip env sd a es) (groupBy adapter (map snd (sd_elements sd)))"

text \<open>The elements of a state are stored under their full names, one per name, and the
  path index has one entry per identifier.\<close>

definition wellKeyed :: "StateData \<Rightarrow> bool" where
  "wellKeyed sd \<longleftrightarrow>
     distinct (map fst (sd_elements sd))
   \<and> list_all (\<lambda>(k, e). k = fullName e) (sd_elements sd)
   \<and> distinct (map fst (sd_pathIndex sd))"

definition namedStreams :: "ContentAndHash list \<Rightarrow> NamedStream list" where
  "namedStreams contents = map (\<lambda>c. \<lparr>name = account c, stream = content c\<rparr>) contents"

text \<open>The stream of one account as \<^verbatim>\<open>calculateContentAndHash\<close> makes it.\<close>

definition accountStream :: "env \<Rightarrow> StateData \<Rightarrow> string \<times> Element list \<Rightarrow> NamedStream" where
  "accountStream env sd g =
     \<lparr>name = fst g,
      stream = createGZipWriteStream env
                 (getStateStream env (serializeStream env (sort_key fullName (snd g)))
                    (serializePathIndexByAccount env (sd_pathIndex sd)) (fst g))\<rparr>"

section \<open>An example environment\<close>

text \<open>
  A small concrete environment on which the definitions can be evaluated: a printer of
  values, elements printed as pairs of full name and value, compression that puts a
  header before the text, and a digest that keeps its input apart from a mark. The
  decoder knows the blobs of the examples below.
\<close>

fun print0 :: "json \<Rightarrow> string" where
  "print0 JNull = ''null''"
| "print0 (JBool b) = (if b then ''true'' else ''false'')"
| "print0 (JNum n) = ''0''"
| "print0 (JStr s) = CHR 0x22 # s @ [CHR 0x22]"
| "print0 (JArr vs) = ''['' @ concat (map (\<lambda>v. print0 v @ '','') vs) @ '']''"
| "print0 (JObj kvs) = ''{}''"

definition elemJson0 :: "Element \<Rightarrow> json" where
  "elemJson0 e = JArr [JStr (fullName e), elemValue e]"

fun elemOfJson0 :: "json \<Rightarrow> Element option" where
  "elemOfJson0 (JArr [JStr n, v]) = Some \<lparr>fullName = n, elemValue = v\<rparr>"
| "elemOfJson0 v = None"

fun elemsOfJson0 :: "json list \<Rightarrow> Element list option" where
  "elemsOfJson0 [] = Some []"
| "elemsOfJson0 (v # vs) =
     (case elemOfJson0 v of
        None \<Rightarrow> None
      | Some e \<Rightarrow> (case elemsOfJson0 vs of None \<Rightarrow> None | Some es \<Rightarrow> Some (e # es)))"

fun deserializeParsed0 :: "json \<Rightarrow> Element list option" where
  "deserializeParsed0 (JArr vs) = elemsOfJson0 vs"
| "deserializeParsed0 v = None"

definition serializeStream0 :: "Element list \<Rightarrow> string" where
  "serializeStream0 es = print0 (JArr (map elemJson0 es))"

definition gzip0 :: "string \<Rightarrow> bytes" where
  "gzip0 t = CHR 0x1F # CHR 0x8B # t"

definition stateText0 :: "Element list \<Rightarrow> string \<Rightarrow> string \<Rightarrow> string" where
  "stateText0 es a p =
     serializeStream0 es @ [CHR 0x0A] @ print0 (JStr a) @ [CHR 0x0A] @ p @ [CHR 0x0A]"

definition elemAccount0 :: Element where
  "elemAccount0 = \<lparr>fullName = ''salesforce.Account'', elemValue = JStr ''object''\<rparr>"

definition elemTicket0 :: Element where
  "elemTicket0 = \<lparr>fullName = ''zendesk.Ticket'', elemValue = JNum 1\<rparr>"

definition pathEntry0 :: "string \<times> json" where
  "pathEntry0 = (''salesforce.Account'', JArr [JArr [JStr ''salesforce'', JStr ''Types'', JStr ''Account'']])"

definition legacyLines0 :: "(nat \<times> json) list" where
  "legacyLines0 =
     [(0, JArr [elemJson0 elemAccount0]),
      (1, JObj [(''salesforce'', JStr ''2020-01-01T00:00:00.000Z''), (''zendesk'', JStr ''2020-01-02T00:00:00.000Z'')]),
      (2, pathIndexJson [pathEntry0]),
      (3, JStr ''0.1.2''),
      (7, JNull)]"

definition gunzipJsonl0 :: "bytes \<Rightarrow> (nat \<times> json) list option" where
  "gunzipJsonl0 b =
     (if b = gzip0 (stateText0 [elemAccount0] ''salesforce'' (print0 (pathIndexJson [pathEntry0])))
      then Some [(0, JArr [elemJson0 elemAccount0]), (1, JStr ''salesforce''), (2, pathIndexJson [pathEntry0])]
      else if b = gzip0 (stateText0 [elemTicket0] ''zendesk'' ''[]'')
      then Some [(0, JArr [elemJson0 elemTicket0]), (1, JStr ''zendesk''), (2, JArr [])]
      else if b = ''legacy'' then Some legacyLines0
      else None)"

definition env0 :: env where
  "env0 =
     \<lparr>toMD5 = (\<lambda>t. ''md5:'' @ t),
      safeJsonStringify = print0,
      serializeStream = serializeStream0,
      deserializeParsed = deserializeParsed0,
      createGZipWriteStream = gzip0,
      bufferToString = (\<lambda>b. b),
      gunzipJsonl = gunzipJsonl0,
      getHashFromHashes = (\<lambda>hs. ''md5:'' @ concat (map (\<lambda>h. h @ '';'') hs)),
      EOL = [CHR 0x0A],
      getLocalStoragePath = (\<lambda>ws. ''/home/.salto/'' @ ws)\<rparr>"

text \<open>Example blobs, prefix and states.\<close>

definition contentOf0 :: "Element list \<Rightarrow> string \<Rightarrow> string \<Rightarrow> ContentAndHash" where
  "contentOf0 es a p =
     \<lparr>account = a, content = gzip0 (stateText0 es a p), contentHash = ''md5:'' @ gzip0 (stateText0 es a p)\<rparr>"

definition contentAccount0 :: ContentAndHash where
  "contentAccount0 = contentOf0 [elemAccount0] ''salesforce'' (print0 (pathIndexJson [pathEntry0]))"

definition contentTicket0 :: ContentAndHash where
  "contentTicket0 = contentOf0 [elemTicket0] ''zendesk'' ''[]''"

definition prefix0 :: path where
  "prefix0 = Path ''/ws/salto.config/states'' ''env1''"

definition emptyStateData :: StateData where
  "emptyStateData = \<lparr>sd_elements = [], sd_pathIndex = [], sd_accounts = [], saltoMetadata = []\<rparr>"

definition blobs0 :: "storage \<Rightarrow> path \<Rightarrow> ContentAndHash list" where
  "blobs0 st p = (if st = LocalFileSystem \<and> p = prefix0 then [contentAccount0, contentTicket0] else [])"

definition hash0 :: string where
  "hash0 = getHashFromHashes env0 [contentHash contentAccount0, contentHash contentTicket0]"

definition stateData0 :: StateData where
  "stateData0 =
     \<lparr>sd_elements = [(''salesforce.Account'', elemAccount0), (''zendesk.Ticket'', elemTicket0)],
      sd_pathIndex = [pathEntry0],
      sd_accounts = [(''account_names'', [JStr ''salesforce'', JStr ''zendesk''])],
      saltoMetadata = [(''hash'', hash0)]\<rparr>"

definition fileProvider0 :: StateContentProvider where
  "fileProvider0 = FileStateContentProvider ''/home/.salto/ws''"

text \<open>A workspace that was never loaded: blobs on the file system, empty remote maps.\<close>

definition stateUnloaded0 :: LocalState where
  "stateUnloaded0 = localState prefix0 fileProvider0 blobs0 emptyStateData"

text \<open>The same workspace, loaded and in step with its blobs and remote maps.\<close>

definition stateLoaded0 :: LocalState where
  "stateLoaded0 =
     (localState prefix0 fileProvider0 blobs0 stateData0)\<lparr>innerStateData := Some (Inr stateData0)\<rparr>"

text \<open>The loaded example workspace after one more element was set.\<close>

definition elemCase0 :: Element where
  "elemCase0 = \<lparr>fullName = ''salesforce.Case'', elemValue = JNull\<rparr>"

definition stateDirty0 :: LocalState where
  "stateDirty0 = snd (state_set env0 elemCase0 stateLoaded0)"

definition contentAccountCase0 :: ContentAndHash where
  "contentAccountCase0 =
     contentOf0 [elemAccount0, elemCase0] ''salesforce'' (print0 (pathIndexJson [pathEntry0]))"

definition hashDirty0 :: string where
  "hashDirty0 = getHashFromHashes env0 [contentHash contentAccountCase0, contentHash contentTicket0]"

definition stateDataDirty0 :: StateData where
  "stateDataDirty0 =
     stateData0\<lparr>sd_elements :=
       [(''salesforce.Account'', elemAccount0), (''zendesk.Ticket'', elemTicket0), (''salesforce.Case'', elemCase0)]\<rparr>"

text \<open>The example workspace loaded from stale remote maps, and the changed workspace
  on a file system that refuses writes.\<close>

definition stateStale0 :: LocalState where
  "stateStale0 = snd (stateData env0 stateUnloaded0)"

definition stateFailing0 :: LocalState where
  "stateFailing0 = stateDirty0\<lparr>writeFails := (\<lambda>st. st = LocalFileSystem)\<rparr>"

text \<open>A migration of the example workspace to object storage.\<close>

definition argsS3 :: UpdateConfigArgs where
  "argsS3 = \<lparr>workspaceId = ''ws'',
             stateConfig = Some \<lparr>provider = ''s3'',
               options = Some \<lparr>fileOptions = None, s3Options = Some \<lparr>bucket = Some ''states''\<rparr>\<rparr>\<rparr>\<rparr>"

definition s3Provider0 :: StateContentProvider where
  "s3Provider0 = S3StateContentProvider ''ws'' ''states''"

text \<open>The loaded example workspace once its content and hash were computed.\<close>

definition stateMemo0 :: LocalState where
  "stateMemo0 = snd (getContentAndHash env0 stateLoaded0)"

text \<open>An example with a path index entry of an account that has no element.\<close>

definition pathEntryOrphan0 :: "string \<times> json" where
  "pathEntryOrphan0 = (''workato.Recipe'', JArr [JArr [JStr ''workato'', JStr ''Recipes'']])"

definition stateOrphan0 :: LocalState where
  "stateOrphan0 =
     stateLoaded0\<lparr>innerStateData :=
       Some (Inr (stateData0\<lparr>sd_pathIndex := [pathEntry0, pathEntryOrphan0]\<rparr>))\<rparr>"

section \<open>Properties of the location cache pool\<close>

lemma pool_get_times_present:
  assumes "poolEntries p loc = Some e"
  shows "poolEntries (snd (pool_get_times n loc cap p)) loc = Some (e\<lparr>refcount := refcount e + n\<rparr>)
       \<and> LocationCacheCreated (snd (pool_get_times n loc cap p)) loc = LocationCacheCreated p loc
       \<and> LocationCacheReuse (snd (pool_get_times n loc cap p)) loc = LocationCacheReuse p loc + n
       \<and> (\<forall>h \<in> set (fst (pool_get_times n loc cap p)). underlying h = resource e \<and> location h = loc)
       \<and> length (fst (pool_get_times n loc cap p)) = n"
  using assms
proof (induction n arbitrary: p e)
  case 0
  then show ?case by simp
next
  case (Suc n)
  let ?p' = "snd (pool_get loc cap p)"
  have step: "poolEntries ?p' loc = Some (e\<lparr>refcount := refcount e + 1\<rparr>)"
    using Suc.prems by (simp add: pool_get_def)
  have cnt: "LocationCacheCreated ?p' loc = LocationCacheCreated p loc"
    "LocationCacheReuse ?p' loc = LocationCacheReuse p loc + 1"
    "underlying (fst (pool_get loc cap p)) = resource e"
    "location (fst (pool_get loc cap p)) = loc"
    using Suc.prems by (simp_all add: pool_get_def)
  from Suc.IH [OF step] cnt show ?case
    by (simp add: split_beta Let_def)
qed

lemma pool_release_all_keeps:
  assumes "poolEntries p loc = Some e"
    and "\<forall>h \<in> set hs. location h = loc"
    and "length hs < refcount e"
  shows "poolEntries (pool_release_all hs p) loc = Some (e\<lparr>refcount := refcount e - length hs\<rparr>)
       \<and> LocationCacheCreated (pool_release_all hs p) = LocationCacheCreated p
       \<and> LocationCacheReuse (pool_release_all hs p) = LocationCacheReuse p
       \<and> nextResource (pool_release_all hs p) = nextResource p"
  using assms
proof (induction hs arbitrary: p e)
  case Nil
  then show ?case by simp
next
  case (Cons h hs)
  have loc: "location h = loc" using Cons.prems(2) by simp
  have big: "refcount e - 1 \<noteq> 0" using Cons.prems(3) by simp
  have step: "poolEntries (pool_release h p) loc = Some (e\<lparr>refcount := refcount e - 1\<rparr>)"
    using Cons.prems(1) loc big by (simp add: pool_release_def)
  have frame: "LocationCacheCreated (pool_release h p) = LocationCacheCreated p"
    "LocationCacheReuse (pool_release h p) = LocationCacheReuse p"
    "nextResource (pool_release h p) = nextResource p"
    using Cons.prems(1) loc big by (simp_all add: pool_release_def)
  have "poolEntries (pool_release_all hs (pool_release h p)) loc
          = Some (e\<lparr>refcount := refcount e - 1\<rparr>\<lparr>refcount := refcount (e\<lparr>refcount := refcount e - 1\<rparr>) - length hs\<rparr>)
       \<and> LocationCacheCreated (pool_release_all hs (pool_release h p)) = LocationCacheCreated (pool_release h p)
       \<and> LocationCacheReuse (pool_release_all hs (pool_release h p)) = LocationCacheReuse (pool_release h p)
       \<and> nextResource (pool_release_all hs (pool_release h p)) = nextResource (pool_release h p)"
    using Cons.prems(2,3) by (intro Cons.IH [OF step]) simp_all
  with frame show ?case by simp
qed

lemma pool_get_absent:
  assumes "poolEntries p loc = None"
  shows "poolEntries (snd (pool_get loc cap p)) loc = Some \<lparr>resource = nextResource p, refcount = 1\<rparr>"
    and "LocationCacheCreated (snd (pool_get loc cap p)) loc = LocationCacheCreated p loc + 1"
    and "LocationCacheReuse (snd (pool_get loc cap p)) loc = LocationCacheReuse p loc"
    and "underlying (fst (pool_get loc cap p)) = nextResource p"
    and "location (fst (pool_get loc cap p)) = loc"
  using assms by (simp_all add: pool_get_def)

lemma pool_release_last:
  assumes "poolEntries p (location h) = Some e" and "refcount e = 1"
  shows "poolEntries (pool_release h p) (location h) = None"
    and "LocationCacheCreated (pool_release h p) = LocationCacheCreated p"
    and "LocationCacheReuse (pool_release h p) = LocationCacheReuse p"
  using assms by (simp_all add: pool_release_def)

text \<open>
  Claim C9. For every location and every \<open>N \<ge> 1\<close>, on a pool that holds no entry for
  the location: \<open>N\<close> calls of \<^verbatim>\<open>get\<close> followed by \<open>N - 1\<close> calls of \<^verbatim>\<open>release\<close> record
  exactly one created event and \<open>N - 1\<close> reuse events for the location, all \<open>N\<close> handles
  share one underlying resource, and the entry is still in the pool; releasing the last
  handle removes the entry, and the next \<^verbatim>\<open>get\<close> records a second created event and no
  further reuse event.
\<close>

theorem pool_get_release_counts:
  assumes "1 \<le> N" and "poolEntries p loc = None"
  shows "(let (hs, p1) = pool_get_times N loc cap p;
              p2 = pool_release_all (tl hs) p1;
              p3 = pool_release (hd hs) p2;
              (h', p4) = pool_get loc cap p3
          in length hs = N
           \<and> LocationCacheCreated p2 loc = LocationCacheCreated p loc + 1
           \<and> LocationCacheReuse p2 loc = LocationCacheReuse p loc + (N - 1)
           \<and> (\<forall>h \<in> set hs. underlying h = underlying (hd hs) \<and> location h = loc)
           \<and> poolEntries p2 loc = Some \<lparr>resource = underlying (hd hs), refcount = 1\<rparr>
           \<and> poolEntries p3 loc = None
           \<and> LocationCacheCreated p4 loc = LocationCacheCreated p loc + 2
           \<and> LocationCacheReuse p4 loc = LocationCacheReuse p loc + (N - 1))"
proof -
  from assms(1) obtain n where N: "N = Suc n" by (cases N) auto
  define h0 where "h0 = fst (pool_get loc cap p)"
  define q where "q = snd (pool_get loc cap p)"
  define e0 where "e0 = \<lparr>resource = nextResource p, refcount = 1\<rparr>"
  define hs where "hs = fst (pool_get_times n loc cap q)"
  define p1 where "p1 = snd (pool_get_times n loc cap q)"
  define p2 where "p2 = pool_release_all hs p1"
  define p3 where "p3 = pool_release h0 p2"
  have q: "poolEntries q loc = Some e0"
    "LocationCacheCreated q loc = LocationCacheCreated p loc + 1"
    "LocationCacheReuse q loc = LocationCacheReuse p loc"
    "underlying h0 = nextResource p" "location h0 = loc"
    using pool_get_absent [OF assms(2), of cap] by (simp_all add: q_def h0_def e0_def)
  have p1: "poolEntries p1 loc = Some (e0\<lparr>refcount := refcount e0 + n\<rparr>)"
    "LocationCacheCreated p1 loc = LocationCacheCreated q loc"
    "LocationCacheReuse p1 loc = LocationCacheReuse q loc + n"
    "\<forall>h \<in> set hs. underlying h = resource e0 \<and> location h = loc"
    "length hs = n"
    using pool_get_times_present [OF q(1), of n cap] by (simp_all add: p1_def hs_def)
  have "length hs < refcount (e0\<lparr>refcount := refcount e0 + n\<rparr>)"
    using p1(5) by (simp add: e0_def)
  from pool_release_all_keeps [OF p1(1) _ this] p1(4)
  have p2: "poolEntries p2 loc = Some e0"
    "LocationCacheCreated p2 = LocationCacheCreated p1"
    "LocationCacheReuse p2 = LocationCacheReuse p1"
    using p1(5) by (simp_all add: p2_def e0_def)
  have p2': "poolEntries p2 (location h0) = Some e0" using p2(1) q(5) by simp
  have "refcount e0 = 1" by (simp add: e0_def)
  from pool_release_last [OF p2' this]
  have p3: "poolEntries p3 loc = None"
    "LocationCacheCreated p3 = LocationCacheCreated p2"
    "LocationCacheReuse p3 = LocationCacheReuse p2"
    using q(5) by (simp_all add: p3_def)
  have p4: "LocationCacheCreated (snd (pool_get loc cap p3)) loc = LocationCacheCreated p3 loc + 1"
    "LocationCacheReuse (snd (pool_get loc cap p3)) loc = LocationCacheReuse p3 loc"
    using pool_get_absent [OF p3(1), of cap] by simp_all
  have unfold: "pool_get_times N loc cap p = (h0 # hs, p1)"
    by (simp add: N h0_def q_def hs_def p1_def split_beta Let_def)
  show ?thesis
    unfolding unfold
    using q p1 p2 p3 p4
    by (simp add: split_beta Let_def p2_def [symmetric] p3_def [symmetric] e0_def N)
qed

theorem pool_get_release_counts_witness:
  "(1::nat) \<le> 3 \<and> poolEntries createLocationCachePool ''SomeLocation'' = None
   \<and> (let (hs, p1) = pool_get_times 3 ''SomeLocation'' 5000 createLocationCachePool;
          p2 = pool_release_all (tl hs) p1;
          p3 = pool_release (hd hs) p2;
          (h', p4) = pool_get ''SomeLocation'' 5000 p3
      in LocationCacheCreated p2 ''SomeLocation'' = 1
       \<and> LocationCacheReuse p2 ''SomeLocation'' = 2
       \<and> poolEntries p3 ''SomeLocation'' = None
       \<and> LocationCacheCreated p4 ''SomeLocation'' = 2
       \<and> LocationCacheReuse p4 ''SomeLocation'' = 2)"
proof -
  have a: "(1::nat) \<le> 3" by simp
  have b: "poolEntries createLocationCachePool ''SomeLocation'' = None"
    by (simp add: createLocationCachePool_def)
  have c: "LocationCacheCreated createLocationCachePool ''SomeLocation'' = 0"
    "LocationCacheReuse createLocationCachePool ''SomeLocation'' = 0"
    by (simp_all add: createLocationCachePool_def)
  show ?thesis
    using a b c pool_get_release_counts [OF a b, of 5000]
    by (simp add: split_beta Let_def)
qed

section \<open>Properties of the stream parser\<close>

lemma parseStateLines_skip:
  "parseStateLines env res (filter (\<lambda>(k, v). k < 3) entries) = parseStateLines env res entries"
proof (induction entries arbitrary: res)
  case Nil
  show ?case by simp
next
  case (Cons kv entries)
  obtain k v where kv: "kv = (k, v)" by (cases kv)
  show ?case
  proof (cases "k < 3")
    case True
    then show ?thesis using Cons.IH by (simp add: kv split: sum.splits)
  next
    case False
    then have "parseStateLine env res (k, v) = Inr res" by simp
    with False show ?thesis using Cons.IH by (simp add: kv)
  qed
qed

text \<open>
  Claim C8. When a durable state stream is parsed: a line at index 1 that holds an
  object contributes the keys of the object as account names and does not fail; a line
  at index 3, the legacy version line, leaves the parse result as it is; so does a line
  at any index above 3; and the outcome of parsing a stream is the outcome of parsing it
  without its lines of index 3 and above, so such lines neither change the result nor
  make parsing fail.
\<close>

theorem parse_legacy_variants:
  "parseStateLine env res (1, JObj kvs) = Inr (res\<lparr>accounts := accounts res @ map JStr (map fst kvs)\<rparr>)
   \<and> parseStateLine env res (3, v) = Inr res
   \<and> (3 < k \<longrightarrow> parseStateLine env res (k, w) = Inr res)
   \<and> parseStateLines env res (filter (\<lambda>(k, v). k < 3) entries) = parseStateLines env res entries"
  using parseStateLines_skip [of env res entries] by simp

theorem parse_legacy_variants_witness:
  "(3::nat) < 7
   \<and> parseStateLine env0 \<lparr>elements = [], accounts = [], pathIndices = []\<rparr>
        (1, JObj [(''salesforce'', JStr ''2020-01-01T00:00:00.000Z'')])
      = Inr \<lparr>elements = [], accounts = [JStr ''salesforce''], pathIndices = []\<rparr>
   \<and> parseStateLine env0 \<lparr>elements = [], accounts = [], pathIndices = []\<rparr> (7, JNull)
      = Inr \<lparr>elements = [], accounts = [], pathIndices = []\<rparr>
   \<and> parseStateLines env0 \<lparr>elements = [], accounts = [], pathIndices = []\<rparr> legacyLines0
      = Inr \<lparr>elements = [elemAccount0], accounts = [JStr ''salesforce'', JStr ''zendesk''],
             pathIndices = [JArr [JStr ''salesforce.Account'', snd pathEntry0]]\<rparr>"
proof -
  have a: "(3::nat) < 7" by simp
  have b: "parseStateLines env0 \<lparr>elements = [], accounts = [], pathIndices = []\<rparr>
             (filter (\<lambda>(k, v). k < 3) legacyLines0)
           = Inr \<lparr>elements = [elemAccount0], accounts = [JStr ''salesforce'', JStr ''zendesk''],
                  pathIndices = [JArr [JStr ''salesforce.Account'', snd pathEntry0]]\<rparr>"
    by (simp add: env0_def legacyLines0_def elemJson0_def elemAccount0_def pathIndexJson_def pathEntry0_def)
  show ?thesis
    using a b
      parse_legacy_variants [of env0 "\<lparr>elements = [], accounts = [], pathIndices = []\<rparr>"
        "[(''salesforce'', JStr ''2020-01-01T00:00:00.000Z'')]" JNull 7 JNull legacyLines0]
    by simp
qed

section \<open>Properties of the local state\<close>

lemmas example_defs = env0_def gunzipJsonl0_def gzip0_def stateText0_def serializeStream0_def
  elemJson0_def elemAccount0_def elemTicket0_def pathEntry0_def pathIndexJson_def
  contentOf0_def contentAccount0_def contentTicket0_def prefix0_def emptyStateData_def
  blobs0_def hash0_def stateData0_def fileProvider0_def stateUnloaded0_def stateLoaded0_def
  localState_def

lemmas load_defs = loadStateData_def syncQuickAccessStateData_def readContents_def
  findStateFiles_def stateFile_def getHash_def parseStateContent_def
  remoteMap_get_def remoteMap_set_def remoteMap_clear_def remoteMap_setAll_def
  elementsSource_setAll_def loadPathIndex_def

text \<open>
  Claim C2. On a load of the state data, when the hash recorded in the quick-access
  cache differs from the hash the content provider gives for the durable state files
  (and the durable content parses), the durable content is read and parsed and the
  elements, the path index and the accounts of the cache become exactly what was parsed,
  the recorded hash becomes the hash of the durable content, \<open>cacheDirty\<close> is set and
  \<open>dirty\<close> is left as it was (false on a state that was not modified); nothing else of
  the closure changes. When the two hashes are equal the cache is returned as it is and
  nothing is read or changed.
\<close>

theorem loadStateData_staleness:
  "(let prov = currentContentProvider s;
        filePaths = findStateFiles prov (currentFilePrefix s) s;
        stateFilesHash = getHash env prov filePaths s;
        quickAccessHash = (case remoteMap_get (saltoMetadata (remoteMaps s)) ''hash'' of
                             Some h \<Rightarrow> h
                           | None \<Rightarrow> toMD5 env (safeJsonStringify env (JArr [])));
        streams = fst (readContents prov filePaths s)
    in (quickAccessHash \<noteq> stateFilesHash \<longrightarrow>
          (\<forall>res. parseStateContent env streams = Inr res \<longrightarrow>
             (\<exists>sd s'. loadStateData env s = (Inr sd, s')
                \<and> sd_elements sd = elementsSource_setAll (elements res) []
                \<and> sd_pathIndex sd = remoteMap_setAll (loadPathIndex (pathIndices res)) []
                \<and> sd_accounts sd = [(''account_names'', accounts res)]
                \<and> remoteMap_get (saltoMetadata sd) ''hash'' = Some stateFilesHash
                \<and> cacheDirty s' \<and> dirty s' = dirty s
                \<and> s' = s\<lparr>events := events s @ [EvReadContents (storageOf prov) filePaths],
                         cacheDirty := True\<rparr>)))
     \<and> (quickAccessHash = stateFilesHash \<longrightarrow> loadStateData env s = (Inr (remoteMaps s), s)))"
  by (simp add: loadStateData_def syncQuickAccessStateData_def readContents_def Let_def
        remoteMap_get_def remoteMap_set_def remoteMap_clear_def update_conv')

theorem loadStateData_staleness_witness:
  "toMD5 env0 (safeJsonStringify env0 (JArr [])) \<noteq> hash0
   \<and> getHash env0 fileProvider0 (findStateFiles fileProvider0 prefix0 stateUnloaded0) stateUnloaded0 = hash0
   \<and> parseStateContent env0
        (fst (readContents fileProvider0 (findStateFiles fileProvider0 prefix0 stateUnloaded0) stateUnloaded0))
      = Inr \<lparr>elements = [elemAccount0, elemTicket0],
             accounts = [JStr ''salesforce'', JStr ''zendesk''],
             pathIndices = [JArr [JStr ''salesforce.Account'', snd pathEntry0]]\<rparr>
   \<and> fst (loadStateData env0 stateUnloaded0) = Inr stateData0
   \<and> cacheDirty (snd (loadStateData env0 stateUnloaded0))
   \<and> \<not> dirty (snd (loadStateData env0 stateUnloaded0))
   \<and> loadStateData env0 stateLoaded0 = (Inr stateData0, stateLoaded0)"
  using loadStateData_staleness [of stateUnloaded0 env0] loadStateData_staleness [of stateLoaded0 env0]
  by (simp add: example_defs load_defs Let_def)

subsection \<open>What loading leaves alone\<close>

lemma loadFrame_refl: "loadFrame s s"
  by (simp add: loadFrame_def)

lemma loadFrame_trans: "loadFrame s s1 \<Longrightarrow> loadFrame s1 s2 \<Longrightarrow> loadFrame s s2"
  by (auto simp: loadFrame_def)

lemma loadStateData_frame:
  "loadFrame s (snd (loadStateData env s))"
  "innerStateData (snd (loadStateData env s)) = innerStateData s"
  "contentsAndHash (snd (loadStateData env s)) = contentsAndHash s"
  by (simp_all add: loadFrame_def loadStateData_def syncQuickAccessStateData_def readContents_def
        Let_def split: sum.splits)

lemma stateData_loaded: "innerStateData s = Some r \<Longrightarrow> stateData env s = (r, s)"
  by (simp add: stateData_def)

lemma stateData_frame:
  "loadFrame s (snd (stateData env s))"
  "innerStateData (snd (stateData env s)) = Some (fst (stateData env s))"
  "contentsAndHash (snd (stateData env s)) = contentsAndHash s"
  using loadStateData_frame [where s=s and env=env]
  by (auto simp: stateData_def loadFrame_def split_beta Let_def split: option.splits)

lemma stateData_unloaded:
  "innerStateData s = None \<Longrightarrow> fst (stateData env s) = fst (loadStateData env s)"
  by (simp add: stateData_def split_beta)

lemma stateData_again: "stateData env (snd (stateData env s)) = stateData env s"
  by (cases "stateData env s") (use stateData_frame(2) [of env s] in \<open>simp add: stateData_loaded\<close>)

subsection \<open>Content and hash\<close>

lemma stateData_cacheDirty_loaded:
  "innerStateData s \<noteq> None \<Longrightarrow> snd (stateData env s) = s"
  by (auto simp: stateData_def)

lemma createStateTextPerAccount_eq:
  "createStateTextPerAccount env s =
     (case stateData env s of
        (Inl e, s1) \<Rightarrow> (Inl e, s1)
      | (Inr sd, s1) \<Rightarrow>
          (Inr (map (\<lambda>(a, es).
                  (a, getStateStream env (serializeStream env (sort_key fullName es))
                        (serializePathIndexByAccount env (sd_pathIndex sd)) a))
                (groupBy adapter (map snd (sd_elements sd)))),
           s1))"
proof (cases "stateData env s")
  case (Pair r s1)
  have again: "stateData env s1 = (r, s1)"
    using stateData_again [of env s] Pair by simp
  show ?thesis
    by (cases r)
       (simp_all add: createStateTextPerAccount_def inMemState_getAll_def inMemState_getPathIndex_def
          Pair again Let_def split_beta comp_def)
qed

lemma calculateContentAndHash_eq:
  "calculateContentAndHash env s =
     (case stateData env s of
        (Inl e, s1) \<Rightarrow> (Inl e, s1)
      | (Inr sd, s1) \<Rightarrow>
          (Inr (map (\<lambda>(a, es).
                  (let t = getStateStream env (serializeStream env (sort_key fullName es))
                             (serializePathIndexByAccount env (sd_pathIndex sd)) a;
                       c = createGZipWriteStream env t
                   in \<lparr>account = a, content = c, contentHash = toMD5 env (bufferToString env c)\<rparr>))
                (groupBy adapter (map snd (sd_elements sd)))),
           s1))"
  by (simp add: calculateContentAndHash_def createStateTextPerAccount_eq Let_def split_beta comp_def
        split: prod.splits sum.splits)

lemma calculateContentAndHash_frame:
  "loadFrame s (snd (calculateContentAndHash env s))"
  "contentsAndHash (snd (calculateContentAndHash env s)) = contentsAndHash s"
  "snd (calculateContentAndHash env s) = snd (stateData env s)"
  using stateData_frame [where s=s and env=env]
  by (auto simp: calculateContentAndHash_eq split: prod.splits sum.splits)

lemma calculateContentAndHash_ok_loaded:
  "calculateContentAndHash env s = (Inr cs, s1) \<Longrightarrow> \<exists>sd. stateData env s = (Inr sd, s1) \<and> innerStateData s1 = Some (Inr sd)"
  using stateData_frame(2) [where s=s and env=env]
  by (auto simp: calculateContentAndHash_eq split: prod.splits sum.splits)

lemma getContentAndHash_memo: "contentsAndHash s = Some r \<Longrightarrow> getContentAndHash env s = (r, s)"
  by (simp add: getContentAndHash_def)

lemma getContentAndHash_frame:
  "loadFrame s (snd (getContentAndHash env s))"
  "contentsAndHash (snd (getContentAndHash env s)) = Some (fst (getContentAndHash env s))"
  using calculateContentAndHash_frame [where s=s and env=env]
  by (auto simp: getContentAndHash_def loadFrame_def split_beta split: option.splits)

lemma getContentAndHash_again:
  "getContentAndHash env (snd (getContentAndHash env s)) = getContentAndHash env s"
  by (cases "getContentAndHash env s")
     (use getContentAndHash_frame(2) [of env s] in \<open>simp add: getContentAndHash_memo\<close>)

lemma texts0:
  "createStateTextPerAccount env0 stateLoaded0 =
     (Inr [(''salesforce'', stateText0 [elemAccount0] ''salesforce'' (print0 (pathIndexJson [pathEntry0]))),
           (''zendesk'', stateText0 [elemTicket0] ''zendesk'' ''[]'')], stateLoaded0)"
  by (simp add: createStateTextPerAccount_eq stateData_def example_defs groupBy_def adapter_def
        adapterOf_def getStateStream_def yieldWithEOL_def serializePathIndexByAccount_def)

lemma contents0:
  "calculateContentAndHash env0 stateLoaded0 = (Inr [contentAccount0, contentTicket0], stateLoaded0)"
  by (simp add: calculateContentAndHash_def texts0 Let_def) (simp add: example_defs)

text \<open>
  Claim C3, as the code has it. Every content unit that \<^verbatim>\<open>calculateContentAndHash\<close>
  produces holds the gzip-compressed text of its account, and its \<open>contentHash\<close> is the
  digest of the string form of those compressed bytes (the source keeps this on purpose
  for backwards compatibility), not the digest of the uncompressed text.
\<close>

theorem contentHash_of_compressed:
  assumes "calculateContentAndHash env s = (Inr cs, s')"
  shows "(\<exists>texts. createStateTextPerAccount env s = (Inr texts, s')
            \<and> map account cs = map fst texts
            \<and> map content cs = map (\<lambda>(a, t). createGZipWriteStream env t) texts)
       \<and> (\<forall>c \<in> set cs. contentHash c = toMD5 env (bufferToString env (content c)))"
proof (cases "createStateTextPerAccount env s")
  case (Pair r s1)
  with assms obtain texts where r: "r = Inr texts"
    by (cases r) (simp_all add: calculateContentAndHash_def)
  from assms Pair r have s1: "s1 = s'"
    and cs: "cs = map (\<lambda>(a, fileContent).
                  (let c = createGZipWriteStream env fileContent
                   in \<lparr>account = a, content = c, contentHash = toMD5 env (bufferToString env c)\<rparr>)) texts"
    by (simp_all add: calculateContentAndHash_def)
  have "map account cs = map fst texts"
    and "map content cs = map (\<lambda>(a, t). createGZipWriteStream env t) texts"
    and "\<forall>c \<in> set cs. contentHash c = toMD5 env (bufferToString env (content c))"
    by (auto simp: cs Let_def split_beta)
  with Pair r s1 show ?thesis by simp
qed

theorem contentHash_of_compressed_witness:
  "calculateContentAndHash env0 stateLoaded0 = (Inr [contentAccount0, contentTicket0], stateLoaded0)
   \<and> contentHash contentAccount0 = toMD5 env0 (bufferToString env0 (content contentAccount0))
   \<and> contentHash contentTicket0 = toMD5 env0 (bufferToString env0 (content contentTicket0))"
  using contentHash_of_compressed [OF contents0] contents0 by simp

text \<open>
  Claim C3 as stated, that \<open>contentHash\<close> is the digest of the uncompressed serialized
  text, fails: in the example environment, where compression puts a header before the
  text and the digest keeps its input, the hash of each account's content unit differs
  from the digest of the account's uncompressed text.
\<close>

theorem contentHash_of_text_counterexample:
  "fst (createStateTextPerAccount env0 stateLoaded0) =
     Inr [(''salesforce'', stateText0 [elemAccount0] ''salesforce'' (print0 (pathIndexJson [pathEntry0]))),
          (''zendesk'', stateText0 [elemTicket0] ''zendesk'' ''[]'')]
   \<and> fst (calculateContentAndHash env0 stateLoaded0) = Inr [contentAccount0, contentTicket0]
   \<and> contentHash contentAccount0
       \<noteq> toMD5 env0 (stateText0 [elemAccount0] ''salesforce'' (print0 (pathIndexJson [pathEntry0])))
   \<and> contentHash contentTicket0 \<noteq> toMD5 env0 (stateText0 [elemTicket0] ''zendesk'' ''[]'')"
  by (simp add: texts0 contents0) (simp add: example_defs)

subsection \<open>Setting the hash and persisting the cache\<close>

lemma reads_no_operations: "list_all isReadContents evs \<Longrightarrow> operations evs = [] \<and> durableWrites evs = []"
proof (induction evs)
  case Nil
  show ?case by (simp add: operations_def durableWrites_def)
next
  case (Cons e evs)
  then show ?case by (cases e) (simp_all add: operations_def durableWrites_def)
qed

lemma operations_append [simp]: "operations (xs @ ys) = operations xs @ operations ys"
  by (simp add: operations_def)

lemma durableWrites_append [simp]: "durableWrites (xs @ ys) = durableWrites xs @ durableWrites ys"
  by (simp add: durableWrites_def)

lemma loadFrame_fields:
  assumes "loadFrame s s'"
  shows "dirty s' = dirty s" "currentFilePrefix s' = currentFilePrefix s"
    "currentContentProvider s' = currentContentProvider s" "durable s' = durable s"
    "remoteMaps s' = remoteMaps s" "writeFails s' = writeFails s"
    "remoteMapFlushFails s' = remoteMapFlushFails s"
    "operations (events s') = operations (events s)"
    "durableWrites (events s') = durableWrites (events s)"
  using assms reads_no_operations by (auto simp: loadFrame_def)

lemma inMemState_setHash_cases:
  assumes "inMemState_setHash env h s = (r, s')"
  shows "loadFrame s s'" "contentsAndHash s' = contentsAndHash s"
    "case r of
       Inl e \<Rightarrow> fst (stateData env s) = Inl e \<and> innerStateData s' = Some (Inl e)
     | Inr u \<Rightarrow> (\<exists>sd. fst (stateData env s) = Inr sd
                   \<and> innerStateData s' = Some (Inr (sd\<lparr>saltoMetadata := remoteMap_set ''hash'' h (saltoMetadata sd)\<rparr>)))"
  using assms stateData_frame [where s=s and env=env]
  by (auto simp: inMemState_setHash_def loadFrame_def split: prod.splits sum.splits)

lemma inMemState_flush_fail:
  assumes "inMemState_flush env s = (Inl e, s')"
  shows "loadFrame s s'" "contentsAndHash s' = contentsAndHash s"
  using assms stateData_frame [where s=s and env=env]
  by (auto simp: inMemState_flush_def split: prod.splits sum.splits if_splits)

lemma inMemState_flush_ok:
  assumes "inMemState_flush env s = (Inr u, s')"
  shows "\<exists>sd. fst (stateData env s) = Inr sd \<and> innerStateData s' = Some (Inr sd) \<and> remoteMaps s' = sd"
    "dirty s' = dirty s" "currentFilePrefix s' = currentFilePrefix s"
    "currentContentProvider s' = currentContentProvider s" "durable s' = durable s"
    "writeFails s' = writeFails s" "remoteMapFlushFails s' = remoteMapFlushFails s"
    "\<not> remoteMapFlushFails s"
    "contentsAndHash s' = contentsAndHash s"
    "operations (events s') = operations (events s) @ [EvRemoteMapFlush]"
    "durableWrites (events s') = durableWrites (events s)"
    "cacheDirty s' = cacheDirty (snd (stateData env s))"
  using assms stateData_frame [where s=s and env=env]
    loadFrame_fields [of s "snd (stateData env s)"]
  by (auto simp: inMemState_flush_def operations_def durableWrites_def split: prod.splits sum.splits if_splits)

subsection \<open>Computing the hash\<close>

lemma calculateHashImpl_frame:
  "loadFrame s (snd (calculateHashImpl env s))"
proof (cases "dirty s")
  case False
  then show ?thesis by (simp add: calculateHashImpl_def loadFrame_refl)
next
  case True
  obtain r sg where g: "getContentAndHash env s = (r, sg)" by (cases "getContentAndHash env s")
  have f1: "loadFrame s sg" using getContentAndHash_frame(1) [of s env] g by simp
  show ?thesis
  proof (cases r)
    case (Inl e)
    with True g f1 show ?thesis by (simp add: calculateHashImpl_def)
  next
    case (Inr cs)
    obtain r2 s2 where h: "inMemState_setHash env (getHashFromHashes env (map contentHash cs)) sg = (r2, s2)"
      by (cases "inMemState_setHash env (getHashFromHashes env (map contentHash cs)) sg")
    from inMemState_setHash_cases(1) [OF h] f1 have "loadFrame s s2" by (rule loadFrame_trans [rotated])
    with True g Inr h show ?thesis by (simp add: calculateHashImpl_def)
  qed
qed

lemma calculateHashImpl_again:
  "calculateHashImpl env (snd (calculateHashImpl env s)) = calculateHashImpl env s"
proof (cases "dirty s")
  case False
  then show ?thesis by (simp add: calculateHashImpl_def)
next
  case True
  obtain r sg where g: "getContentAndHash env s = (r, sg)" by (cases "getContentAndHash env s")
  have f1: "loadFrame s sg" and m1: "contentsAndHash sg = Some r"
    using getContentAndHash_frame [where s=s and env=env] g by simp_all
  have d1: "dirty sg" using loadFrame_fields(1) [OF f1] True by simp
  show ?thesis
  proof (cases r)
    case (Inl e)
    have "calculateHashImpl env s = (Inl e, sg)" using True g Inl by (simp add: calculateHashImpl_def)
    moreover have "calculateHashImpl env sg = (Inl e, sg)"
      using d1 m1 Inl by (simp add: calculateHashImpl_def getContentAndHash_memo)
    ultimately show ?thesis by simp
  next
    case (Inr cs)
    let ?h = "getHashFromHashes env (map contentHash cs)"
    obtain r2 s2 where h: "inMemState_setHash env ?h sg = (r2, s2)"
      by (cases "inMemState_setHash env ?h sg")
    have first: "calculateHashImpl env s = (r2, s2)"
      using True g Inr h by (simp add: calculateHashImpl_def)
    note c = inMemState_setHash_cases [OF h]
    have d2: "dirty s2" using loadFrame_fields(1) [OF c(1)] d1 by simp
    have m2: "contentsAndHash s2 = Some (Inr cs)" using c(2) m1 Inr by simp
    have second: "calculateHashImpl env s2 = inMemState_setHash env ?h s2"
      using d2 m2 by (simp add: calculateHashImpl_def getContentAndHash_memo)
    have "inMemState_setHash env ?h s2 = (r2, s2)"
    proof (cases r2)
      case (Inl e)
      with c(3) have "innerStateData s2 = Some (Inl e)" by simp
      then show ?thesis using Inl by (simp add: inMemState_setHash_def stateData_loaded)
    next
      case (Inr u)
      with c(3) obtain sd where
        i2: "innerStateData s2 = Some (Inr (sd\<lparr>saltoMetadata := remoteMap_set ''hash'' ?h (saltoMetadata sd)\<rparr>))"
        by auto
      have "s2\<lparr>innerStateData := innerStateData s2\<rparr> = s2" by simp
      then show ?thesis using Inr i2
        by (simp add: inMemState_setHash_def stateData_loaded remoteMap_set_def)
    qed
    with first second show ?thesis by simp
  qed
qed

lemma calculateHashImpl_stored:
  assumes "dirty s" and "calculateHashImpl env s = (Inr u, s')"
  shows "\<exists>cs sd. contentsAndHash s' = Some (Inr cs) \<and> innerStateData s' = Some (Inr sd)
           \<and> remoteMap_get (saltoMetadata sd) ''hash'' = Some (getHashFromHashes env (map contentHash cs))"
proof -
  obtain r sg where g: "getContentAndHash env s = (r, sg)" by (cases "getContentAndHash env s")
  have m1: "contentsAndHash sg = Some r"
    using getContentAndHash_frame [where s=s and env=env] g by simp_all
  from assms g obtain cs where r: "r = Inr cs"
    by (cases r) (simp_all add: calculateHashImpl_def)
  let ?h = "getHashFromHashes env (map contentHash cs)"
  have h: "inMemState_setHash env ?h sg = (Inr u, s')"
    using assms g r by (simp add: calculateHashImpl_def)
  note c = inMemState_setHash_cases [OF h]
  from c(3) obtain sd where
    "innerStateData s' = Some (Inr (sd\<lparr>saltoMetadata := remoteMap_set ''hash'' ?h (saltoMetadata sd)\<rparr>))"
    by auto
  moreover have "contentsAndHash s' = Some (Inr cs)" using c(2) m1 r by simp
  ultimately show ?thesis
    by (simp add: remoteMap_get_def remoteMap_set_def update_conv')
qed

text \<open>
  Claim C5. \<^verbatim>\<open>calculateHash\<close> on a state that is not dirty returns at once and changes
  nothing. Calling it a second time, with nothing in between, gives the outcome and the
  state of the first call again, so the digest it stores is the same both times (on
  success of a dirty state: the combination of the memoized account hashes, stored as
  the hash of the loaded cache). No call writes, clears or renames durable content: the
  blobs are as before and the trace gains no such operation.
\<close>

theorem calculateHash_stable:
  "(\<not> dirty s \<longrightarrow> calculateHashImpl env s = (Inr (), s))
   \<and> calculateHashImpl env (snd (calculateHashImpl env s)) = calculateHashImpl env s
   \<and> durable (snd (calculateHashImpl env s)) = durable s
   \<and> durableWrites (events (snd (calculateHashImpl env s))) = durableWrites (events s)
   \<and> (dirty s \<longrightarrow> fst (calculateHashImpl env s) = Inr () \<longrightarrow>
        (\<exists>cs sd. contentsAndHash (snd (calculateHashImpl env s)) = Some (Inr cs)
           \<and> innerStateData (snd (calculateHashImpl env s)) = Some (Inr sd)
           \<and> remoteMap_get (saltoMetadata sd) ''hash'' = Some (getHashFromHashes env (map contentHash cs))))"
proof -
  have a: "\<not> dirty s \<longrightarrow> calculateHashImpl env s = (Inr (), s)"
    by (simp add: calculateHashImpl_def)
  note f = loadFrame_fields [OF calculateHashImpl_frame [of s env]]
  have e: "dirty s \<longrightarrow> fst (calculateHashImpl env s) = Inr () \<longrightarrow>
        (\<exists>cs sd. contentsAndHash (snd (calculateHashImpl env s)) = Some (Inr cs)
           \<and> innerStateData (snd (calculateHashImpl env s)) = Some (Inr sd)
           \<and> remoteMap_get (saltoMetadata sd) ''hash'' = Some (getHashFromHashes env (map contentHash cs)))"
    using calculateHashImpl_stored [of s env "()" "snd (calculateHashImpl env s)"]
    by (cases "calculateHashImpl env s") auto
  from a calculateHashImpl_again [of env s] f(4) f(9) e show ?thesis by blast
qed

subsection \<open>The example workspace after a change\<close>

lemma stateDirty0_eq:
  "stateDirty0 = (setDirty stateLoaded0)\<lparr>innerStateData := Some (Inr stateDataDirty0)\<rparr>"
  by (simp add: stateDirty0_def state_set_def inMemState_set_def stateData_def setDirty_def
        stateLoaded0_def localState_def stateDataDirty0_def remoteMap_set_def stateData0_def
        elemCase0_def)

lemma stateDirty0_fields:
  "dirty stateDirty0" "contentsAndHash stateDirty0 = None"
  "innerStateData stateDirty0 = Some (Inr stateDataDirty0)"
  "durable stateDirty0 = blobs0" "events stateDirty0 = []"
  "currentFilePrefix stateDirty0 = prefix0" "currentContentProvider stateDirty0 = fileProvider0"
  "\<not> cacheDirty stateDirty0" "remoteMaps stateDirty0 = stateData0"
  "writeFails stateDirty0 = (\<lambda>_. False)" "\<not> remoteMapFlushFails stateDirty0"
  by (simp_all add: stateDirty0_eq setDirty_def stateLoaded0_def localState_def)

lemma contentsDirty0:
  "calculateContentAndHash env0 stateDirty0 = (Inr [contentAccountCase0, contentTicket0], stateDirty0)"
  by (simp add: calculateContentAndHash_eq stateData_loaded stateDirty0_fields stateDataDirty0_def
        groupBy_def adapter_def adapterOf_def getStateStream_def yieldWithEOL_def
        serializePathIndexByAccount_def example_defs contentAccountCase0_def elemCase0_def Let_def)

theorem calculateHash_stable_witness:
  "\<not> dirty stateLoaded0 \<and> calculateHashImpl env0 stateLoaded0 = (Inr (), stateLoaded0)
   \<and> dirty stateDirty0
   \<and> calculateHashImpl env0 stateDirty0 =
        (Inr (), stateDirty0\<lparr>contentsAndHash := Some (Inr [contentAccountCase0, contentTicket0]),
                   innerStateData := Some (Inr (stateDataDirty0\<lparr>saltoMetadata := [(''hash'', hashDirty0)]\<rparr>))\<rparr>)
   \<and> calculateHashImpl env0 (snd (calculateHashImpl env0 stateDirty0)) = calculateHashImpl env0 stateDirty0
   \<and> durable (snd (calculateHashImpl env0 stateDirty0)) = blobs0
   \<and> durableWrites (events (snd (calculateHashImpl env0 stateDirty0))) = []"
proof -
  have a: "\<not> dirty stateLoaded0" by (simp add: stateLoaded0_def localState_def)
  have b: "calculateHashImpl env0 stateDirty0 =
        (Inr (), stateDirty0\<lparr>contentsAndHash := Some (Inr [contentAccountCase0, contentTicket0]),
                   innerStateData := Some (Inr (stateDataDirty0\<lparr>saltoMetadata := [(''hash'', hashDirty0)]\<rparr>))\<rparr>)"
    by (simp add: calculateHashImpl_def getContentAndHash_def contentsDirty0 stateDirty0_fields
          inMemState_setHash_def stateData_loaded hashDirty0_def remoteMap_set_def
          stateDataDirty0_def stateData0_def)
  show ?thesis
    using a b calculateHash_stable [of stateLoaded0 env0] calculateHash_stable [of stateDirty0 env0]
    by (simp add: stateDirty0_fields durableWrites_def)
qed

subsection \<open>Flushing\<close>

lemma flush_clean: "\<not> dirty s \<Longrightarrow> \<not> cacheDirty s \<Longrightarrow> flush env s = (Inr (), s)"
  by (simp add: flush_def)

lemma flush_cacheDirty_ok:
  assumes "\<not> dirty s" "cacheDirty s" "flush env s = (Inr u, s')"
  shows "\<exists>sd. fst (stateData env s) = Inr sd \<and> innerStateData s' = Some (Inr sd) \<and> remoteMaps s' = sd"
    "\<not> cacheDirty s'" "\<not> dirty s'" "durable s' = durable s"
    "operations (events s') = operations (events s) @ [EvRemoteMapFlush]"
proof -
  from assms obtain s1 where f: "inMemState_flush env s = (Inr (), s1)" and s': "s' = s1\<lparr>cacheDirty := False\<rparr>"
    by (auto simp: flush_def split: prod.splits sum.splits)
  note k = inMemState_flush_ok [OF f]
  from k(1) s' show "\<exists>sd. fst (stateData env s) = Inr sd \<and> innerStateData s' = Some (Inr sd) \<and> remoteMaps s' = sd"
    by auto
  show "\<not> cacheDirty s'" by (simp add: s')
  show "\<not> dirty s'" using k(2) assms(1) by (simp add: s')
  show "durable s' = durable s" using k(5) by (simp add: s')
  show "operations (events s') = operations (events s) @ [EvRemoteMapFlush]" using k(10) by (simp add: s')
qed

lemma flush_not_dirty_frame:
  assumes "\<not> dirty s"
  shows "durable (snd (flush env s)) = durable s"
    "durableWrites (events (snd (flush env s))) = durableWrites (events s)"
    "dirty (snd (flush env s)) = dirty s"
proof -
  obtain r s1 where f: "inMemState_flush env s = (r, s1)" by (cases "inMemState_flush env s")
  have "durable s1 = durable s \<and> durableWrites (events s1) = durableWrites (events s) \<and> dirty s1 = dirty s"
  proof (cases r)
    case (Inl e)
    with f have "loadFrame s s1" using inMemState_flush_fail(1) by blast
    from loadFrame_fields [OF this] show ?thesis by simp
  next
    case (Inr u)
    with f inMemState_flush_ok [of env s u s1] show ?thesis by simp
  qed
  with assms f show "durable (snd (flush env s)) = durable s"
    "durableWrites (events (snd (flush env s))) = durableWrites (events s)"
    "dirty (snd (flush env s)) = dirty s"
    by (auto simp: flush_def split: sum.splits)
qed

lemma mkdirp_fields:
  "dirty (mkdirp d s) = dirty s" "contentsAndHash (mkdirp d s) = contentsAndHash s"
  "currentFilePrefix (mkdirp d s) = currentFilePrefix s"
  "currentContentProvider (mkdirp d s) = currentContentProvider s"
  "durable (mkdirp d s) = durable s" "remoteMaps (mkdirp d s) = remoteMaps s"
  "writeFails (mkdirp d s) = writeFails s" "remoteMapFlushFails (mkdirp d s) = remoteMapFlushFails s"
  "innerStateData (mkdirp d s) = innerStateData s" "cacheDirty (mkdirp d s) = cacheDirty s"
  "events (mkdirp d s) = events s @ [EvMkdirp d]"
  by (simp_all add: mkdirp_def)

text \<open>The first half of a flush of a dirty state: directory, content and hash.\<close>

lemma flush_dirty_content_fail:
  assumes "dirty s" "getContentAndHash env (mkdirp (path_dirname (currentFilePrefix s)) s) = (Inl e, s1)"
  shows "flush env s = (Inl e, s1)" "dirty s1"
  using assms getContentAndHash_frame(1) [of "mkdirp (path_dirname (currentFilePrefix s)) s" env]
  by (auto simp: flush_def Let_def dest!: loadFrame_fields(1) simp: mkdirp_fields)

lemma flush_dirty_write_fail:
  assumes "dirty s" "getContentAndHash env (mkdirp (path_dirname (currentFilePrefix s)) s) = (Inr contents, s1)"
    and "writeFails s (storageOf (currentContentProvider s))"
  shows "flush env s = (Inl BackendIOError,
           s1\<lparr>events := events s1 @ [EvWriteContents (storageOf (currentContentProvider s)) (currentFilePrefix s)]\<rparr>)"
proof -
  let ?s0 = "mkdirp (path_dirname (currentFilePrefix s)) s"
  have fr: "loadFrame ?s0 s1" using getContentAndHash_frame(1) [of ?s0 env] assms(2) by simp
  note f = loadFrame_fields [OF fr]
  have "writeContents (currentContentProvider s1) (currentFilePrefix s1) contents s1
        = (Inl BackendIOError, s1\<lparr>events := events s1 @ [EvWriteContents (storageOf (currentContentProvider s)) (currentFilePrefix s)]\<rparr>)"
    using assms(3) f by (simp add: writeContents_def mkdirp_fields Let_def)
  with assms(1,2) show ?thesis by (simp add: flush_def Let_def)
qed

lemma flush_dirty_ok:
  assumes "dirty s" "flush env s = (Inr u, s')"
  shows "\<exists>contents sd.
           fst (getContentAndHash env (mkdirp (path_dirname (currentFilePrefix s)) s)) = Inr contents
         \<and> (\<forall>r. contentsAndHash s = Some r \<longrightarrow> r = Inr contents)
         \<and> contentsAndHash s' = Some (Inr contents)
         \<and> durable s' = (durable s)(storageOf (currentContentProvider s) :=
              (durable s (storageOf (currentContentProvider s)))(currentFilePrefix s := contents))
         \<and> innerStateData s' = Some (Inr sd) \<and> remoteMaps s' = sd
         \<and> remoteMap_get (saltoMetadata sd) ''hash'' = Some (getHashFromHashes env (map contentHash contents))
         \<and> operations (events s') = operations (events s) @
              [EvMkdirp (path_dirname (currentFilePrefix s)),
               EvWriteContents (storageOf (currentContentProvider s)) (currentFilePrefix s),
               EvRemoteMapFlush]
         \<and> \<not> dirty s' \<and> \<not> writeFails s (storageOf (currentContentProvider s))
         \<and> \<not> remoteMapFlushFails s"
proof -
  let ?s0 = "mkdirp (path_dirname (currentFilePrefix s)) s"
  let ?st = "storageOf (currentContentProvider s)"
  let ?p = "currentFilePrefix s"
  obtain r s1 where g: "getContentAndHash env ?s0 = (r, s1)" by (cases "getContentAndHash env ?s0")
  have fr: "loadFrame ?s0 s1" and m1: "contentsAndHash s1 = Some r"
    using getContentAndHash_frame [where s="?s0" and env=env] g by simp_all
  note f1 = loadFrame_fields [OF fr, unfolded mkdirp_fields]
  from assms g obtain contents where r: "r = Inr contents"
    by (cases r) (auto simp: flush_def Let_def)
  let ?h = "getHashFromHashes env (map contentHash contents)"
  have nofail: "\<not> writeFails s ?st"
  proof
    assume "writeFails s ?st"
    from flush_dirty_write_fail [OF assms(1) g [unfolded r] this] assms(2) show False by simp
  qed
  define s2 where "s2 = s1\<lparr>events := events s1 @ [EvWriteContents ?st ?p],
                           durable := (durable s)(?st := (durable s ?st)(?p := contents))\<rparr>"
  have w: "writeContents (currentContentProvider s1) (currentFilePrefix s1) contents s1 = (Inr (), s2)"
    using nofail f1 by (simp add: writeContents_def Let_def s2_def)
  obtain r3 s3 where h: "inMemState_setHash env ?h s2 = (r3, s3)"
    by (cases "inMemState_setHash env ?h s2")
  from assms g r w h have r3: "r3 = Inr ()"
    by (cases r3) (auto simp: flush_def Let_def)
  note c = inMemState_setHash_cases [OF h]
  note f3 = loadFrame_fields [OF c(1)]
  from c(3) r3 obtain sd0 where
    i3: "innerStateData s3 = Some (Inr (sd0\<lparr>saltoMetadata := remoteMap_set ''hash'' ?h (saltoMetadata sd0)\<rparr>))"
    by auto
  obtain r4 s4 where fl: "inMemState_flush env s3 = (r4, s4)" by (cases "inMemState_flush env s3")
  from assms g r w h r3 fl have r4: "r4 = Inr ()" and s': "s' = s4\<lparr>dirty := False\<rparr>"
    by (cases r4; auto simp: flush_def Let_def)+
  note k = inMemState_flush_ok [OF fl [unfolded r4]]
  have sd3: "stateData env s3 = (Inr (sd0\<lparr>saltoMetadata := remoteMap_set ''hash'' ?h (saltoMetadata sd0)\<rparr>), s3)"
    using i3 by (simp add: stateData_loaded)
  let ?sd = "sd0\<lparr>saltoMetadata := remoteMap_set ''hash'' ?h (saltoMetadata sd0)\<rparr>"
  have "fst (getContentAndHash env ?s0) = Inr contents" using g r by simp
  moreover have "\<forall>r0. contentsAndHash s = Some r0 \<longrightarrow> r0 = Inr contents"
    using g r by (auto simp: getContentAndHash_memo mkdirp_fields)
  moreover have "contentsAndHash s' = Some (Inr contents)"
    using k(9) c(2) m1 r by (simp add: s' s2_def)
  moreover have "durable s' = (durable s)(?st := (durable s ?st)(?p := contents))"
    using k(5) f3(4) by (simp add: s' s2_def)
  moreover have "innerStateData s' = Some (Inr ?sd) \<and> remoteMaps s' = ?sd"
    using k(1) sd3 by (simp add: s')
  moreover have "remoteMap_get (saltoMetadata ?sd) ''hash'' = Some ?h"
    by (simp add: remoteMap_get_def remoteMap_set_def update_conv')
  moreover have "operations (events s') = operations (events s) @ [EvMkdirp (path_dirname ?p), EvWriteContents ?st ?p, EvRemoteMapFlush]"
    using k(10) f3(8) f1(8) by (simp add: s' s2_def operations_def)
  moreover have "\<not> dirty s'" by (simp add: s')
  moreover have "\<not> remoteMapFlushFails s" using k(8) f3(7) f1(7) by (simp add: s2_def)
  ultimately show ?thesis using nofail by blast
qed

lemma flush_dirty_fail:
  assumes "dirty s" "flush env s = (Inl e, s')"
  shows "dirty s'"
proof -
  let ?s0 = "mkdirp (path_dirname (currentFilePrefix s)) s"
  let ?st = "storageOf (currentContentProvider s)"
  let ?p = "currentFilePrefix s"
  obtain r s1 where g: "getContentAndHash env ?s0 = (r, s1)" by (cases "getContentAndHash env ?s0")
  have fr: "loadFrame ?s0 s1"
    using getContentAndHash_frame [where s="?s0" and env=env] g by simp_all
  note f1 = loadFrame_fields [OF fr, unfolded mkdirp_fields]
  show ?thesis
  proof (cases r)
    case (Inl e1)
    from flush_dirty_content_fail [OF assms(1) g [unfolded Inl]] assms(2) show ?thesis by simp
  next
    case (Inr contents)
    show ?thesis
    proof (cases "writeFails s ?st")
      case True
      from flush_dirty_write_fail [OF assms(1) g [unfolded Inr] True] assms(2) f1(1) assms(1)
      show ?thesis by auto
    next
      case False
      let ?h = "getHashFromHashes env (map contentHash contents)"
      define s2 where "s2 = s1\<lparr>events := events s1 @ [EvWriteContents ?st ?p],
                           durable := (durable s)(?st := (durable s ?st)(?p := contents))\<rparr>"
      have w: "writeContents (currentContentProvider s1) (currentFilePrefix s1) contents s1 = (Inr (), s2)"
        using False f1 by (simp add: writeContents_def Let_def s2_def)
      have d2: "dirty s2" using f1(1) assms(1) by (simp add: s2_def)
      obtain r3 s3 where h: "inMemState_setHash env ?h s2 = (r3, s3)"
        by (cases "inMemState_setHash env ?h s2")
      have d3: "dirty s3" using loadFrame_fields(1) [OF inMemState_setHash_cases(1) [OF h]] d2 by simp
      show ?thesis
      proof (cases r3)
        case (Inl e3)
        with assms g Inr w h d3 show ?thesis by (simp add: flush_def Let_def)
      next
        case r3: (Inr u3)
        obtain r4 s4 where fl: "inMemState_flush env s3 = (r4, s4)" by (cases "inMemState_flush env s3")
        show ?thesis
        proof (cases r4)
          case (Inl e4)
          from inMemState_flush_fail(1) [OF fl [unfolded Inl]] have "dirty s4 = dirty s3"
            by (rule loadFrame_fields(1))
          with assms g Inr w h r3 fl Inl d3 show ?thesis by (simp add: flush_def Let_def)
        next
          case (Inr u4)
          with assms g \<open>r = Inr contents\<close> w h r3 fl show ?thesis by (simp add: flush_def Let_def)
        qed
      qed
    qed
  qed
qed

lemma flush_dirty_after:
  "dirty (snd (flush env s)) \<longleftrightarrow> dirty s \<and> (\<exists>e. fst (flush env s) = Inl e)"
proof (cases "dirty s")
  case False
  then show ?thesis using flush_not_dirty_frame(3) [of s env] by simp
next
  case True
  obtain r s' where f: "flush env s = (r, s')" by (cases "flush env s")
  show ?thesis
  proof (cases r)
    case (Inl e)
    with flush_dirty_fail [OF True, of env e s'] f True show ?thesis by simp
  next
    case (Inr u)
    with flush_dirty_ok [OF True, of env u s'] f show ?thesis by auto
  qed
qed

text \<open>
  Claim C6. A \<^verbatim>\<open>flush\<close> of a state that is not dirty leaves the durable blobs as they
  are and adds no write, clear or rename to the trace: with \<open>cacheDirty\<close> unset it
  changes nothing at all; with \<open>cacheDirty\<close> set a successful flush persists the loaded
  cache into the remote maps and clears \<open>cacheDirty\<close>. A successful flush of a dirty state
  takes the per-account content and hash (the memoized one when there is one), writes it
  under the current prefix through the current provider, stores the combined digest as
  the hash of the cache, persists the cache and clears \<open>dirty\<close>; apart from reads, its
  operations are the directory creation, the write and the persisting of the cache, in
  this order.
\<close>

theorem flush_effects:
  "(\<not> dirty s \<longrightarrow> durable (snd (flush env s)) = durable s
        \<and> durableWrites (events (snd (flush env s))) = durableWrites (events s))
   \<and> (\<not> dirty s \<and> \<not> cacheDirty s \<longrightarrow> flush env s = (Inr (), s))
   \<and> (\<not> dirty s \<and> cacheDirty s \<longrightarrow> (\<forall>s'. flush env s = (Inr (), s') \<longrightarrow>
         (\<exists>sd. fst (stateData env s) = Inr sd \<and> remoteMaps s' = sd)
         \<and> \<not> cacheDirty s' \<and> \<not> dirty s'
         \<and> operations (events s') = operations (events s) @ [EvRemoteMapFlush]))
   \<and> (dirty s \<longrightarrow> (\<forall>s'. flush env s = (Inr (), s') \<longrightarrow>
         (\<exists>contents sd.
            fst (getContentAndHash env (mkdirp (path_dirname (currentFilePrefix s)) s)) = Inr contents
          \<and> (\<forall>r. contentsAndHash s = Some r \<longrightarrow> r = Inr contents)
          \<and> contentsAndHash s' = Some (Inr contents)
          \<and> durable s' = (durable s)(storageOf (currentContentProvider s) :=
               (durable s (storageOf (currentContentProvider s)))(currentFilePrefix s := contents))
          \<and> innerStateData s' = Some (Inr sd) \<and> remoteMaps s' = sd
          \<and> remoteMap_get (saltoMetadata sd) ''hash'' = Some (getHashFromHashes env (map contentHash contents))
          \<and> operations (events s') = operations (events s) @
               [EvMkdirp (path_dirname (currentFilePrefix s)),
                EvWriteContents (storageOf (currentContentProvider s)) (currentFilePrefix s),
                EvRemoteMapFlush]
          \<and> \<not> dirty s')))"
proof -
  have a: "\<not> dirty s \<longrightarrow> durable (snd (flush env s)) = durable s
        \<and> durableWrites (events (snd (flush env s))) = durableWrites (events s)"
    using flush_not_dirty_frame [of s env] by simp
  have b: "\<not> dirty s \<and> \<not> cacheDirty s \<longrightarrow> flush env s = (Inr (), s)"
    by (simp add: flush_clean)
  have c: "\<not> dirty s \<and> cacheDirty s \<longrightarrow> (\<forall>s'. flush env s = (Inr (), s') \<longrightarrow>
         (\<exists>sd. fst (stateData env s) = Inr sd \<and> remoteMaps s' = sd)
         \<and> \<not> cacheDirty s' \<and> \<not> dirty s'
         \<and> operations (events s') = operations (events s) @ [EvRemoteMapFlush])"
    using flush_cacheDirty_ok [of s env "()"] by blast
  have d: "dirty s \<longrightarrow> (\<forall>s'. flush env s = (Inr (), s') \<longrightarrow>
         (\<exists>contents sd.
            fst (getContentAndHash env (mkdirp (path_dirname (currentFilePrefix s)) s)) = Inr contents
          \<and> (\<forall>r. contentsAndHash s = Some r \<longrightarrow> r = Inr contents)
          \<and> contentsAndHash s' = Some (Inr contents)
          \<and> durable s' = (durable s)(storageOf (currentContentProvider s) :=
               (durable s (storageOf (currentContentProvider s)))(currentFilePrefix s := contents))
          \<and> innerStateData s' = Some (Inr sd) \<and> remoteMaps s' = sd
          \<and> remoteMap_get (saltoMetadata sd) ''hash'' = Some (getHashFromHashes env (map contentHash contents))
          \<and> operations (events s') = operations (events s) @
               [EvMkdirp (path_dirname (currentFilePrefix s)),
                EvWriteContents (storageOf (currentContentProvider s)) (currentFilePrefix s),
                EvRemoteMapFlush]
          \<and> \<not> dirty s'))"
  proof (intro impI allI)
    fix s' assume "dirty s" "flush env s = (Inr (), s')"
    from flush_dirty_ok [OF this] show "\<exists>contents sd.
            fst (getContentAndHash env (mkdirp (path_dirname (currentFilePrefix s)) s)) = Inr contents
          \<and> (\<forall>r. contentsAndHash s = Some r \<longrightarrow> r = Inr contents)
          \<and> contentsAndHash s' = Some (Inr contents)
          \<and> durable s' = (durable s)(storageOf (currentContentProvider s) :=
               (durable s (storageOf (currentContentProvider s)))(currentFilePrefix s := contents))
          \<and> innerStateData s' = Some (Inr sd) \<and> remoteMaps s' = sd
          \<and> remoteMap_get (saltoMetadata sd) ''hash'' = Some (getHashFromHashes env (map contentHash contents))
          \<and> operations (events s') = operations (events s) @
               [EvMkdirp (path_dirname (currentFilePrefix s)),
                EvWriteContents (storageOf (currentContentProvider s)) (currentFilePrefix s),
                EvRemoteMapFlush]
          \<and> \<not> dirty s'"
      by blast
  qed
  from a b c d show ?thesis by blast
qed

subsection \<open>Flushing the example workspaces\<close>

lemma contentsDirty0_any:
  "innerStateData s = Some (Inr stateDataDirty0) \<Longrightarrow>
   calculateContentAndHash env0 s = (Inr [contentAccountCase0, contentTicket0], s)"
  by (simp add: calculateContentAndHash_eq stateData_loaded stateDataDirty0_def
        groupBy_def adapter_def adapterOf_def getStateStream_def yieldWithEOL_def
        serializePathIndexByAccount_def example_defs contentAccountCase0_def elemCase0_def Let_def)

lemma stateStale0_eq:
  "stateStale0 = stateUnloaded0\<lparr>
      events := [EvReadContents LocalFileSystem [(prefix0, ''salesforce''), (prefix0, ''zendesk'')]],
      cacheDirty := True, innerStateData := Some (Inr stateData0)\<rparr>"
  by (simp add: stateStale0_def stateData_def example_defs load_defs Let_def)

lemma stateLoaded0_fields:
  "\<not> dirty stateLoaded0" "\<not> cacheDirty stateLoaded0" "contentsAndHash stateLoaded0 = None"
  "innerStateData stateLoaded0 = Some (Inr stateData0)" "durable stateLoaded0 = blobs0"
  "events stateLoaded0 = []" "currentFilePrefix stateLoaded0 = prefix0"
  "currentContentProvider stateLoaded0 = fileProvider0" "remoteMaps stateLoaded0 = stateData0"
  "writeFails stateLoaded0 = (\<lambda>_. False)" "\<not> remoteMapFlushFails stateLoaded0"
  by (simp_all add: stateLoaded0_def localState_def)

lemma flushStale0:
  "flush env0 stateStale0 =
     (Inr (), stateStale0\<lparr>remoteMaps := stateData0,
                events := [EvReadContents LocalFileSystem [(prefix0, ''salesforce''), (prefix0, ''zendesk'')],
                           EvRemoteMapFlush],
                cacheDirty := False\<rparr>)"
  by (simp add: flush_def inMemState_flush_def stateData_loaded stateStale0_eq stateUnloaded0_def localState_def)

lemma flushDirty0:
  "flush env0 stateDirty0 =
     (Inr (), stateDirty0\<lparr>
        contentsAndHash := Some (Inr [contentAccountCase0, contentTicket0]),
        innerStateData := Some (Inr (stateDataDirty0\<lparr>saltoMetadata := [(''hash'', hashDirty0)]\<rparr>)),
        remoteMaps := stateDataDirty0\<lparr>saltoMetadata := [(''hash'', hashDirty0)]\<rparr>,
        durable := blobs0(LocalFileSystem := (blobs0 LocalFileSystem)(prefix0 := [contentAccountCase0, contentTicket0])),
        events := [EvMkdirp ''/ws/salto.config/states'', EvWriteContents LocalFileSystem prefix0, EvRemoteMapFlush],
        dirty := False\<rparr>)"
  by (simp add: flush_def getContentAndHash_def contentsDirty0_any mkdirp_fields stateDirty0_fields
        writeContents_def inMemState_setHash_def inMemState_flush_def stateData_loaded Let_def
        hashDirty0_def remoteMap_set_def stateDataDirty0_def stateData0_def fileProvider0_def)
     (simp add: mkdirp_def stateDirty0_fields prefix0_def)

theorem flush_effects_witness:
  "\<not> dirty stateLoaded0 \<and> \<not> cacheDirty stateLoaded0 \<and> flush env0 stateLoaded0 = (Inr (), stateLoaded0)
   \<and> \<not> dirty stateStale0 \<and> cacheDirty stateStale0 \<and> fst (flush env0 stateStale0) = Inr ()
   \<and> remoteMaps (snd (flush env0 stateStale0)) = stateData0
   \<and> \<not> cacheDirty (snd (flush env0 stateStale0))
   \<and> durable (snd (flush env0 stateStale0)) = blobs0
   \<and> dirty stateDirty0 \<and> fst (flush env0 stateDirty0) = Inr ()
   \<and> durable (snd (flush env0 stateDirty0)) LocalFileSystem prefix0 = [contentAccountCase0, contentTicket0]
   \<and> remoteMaps (snd (flush env0 stateDirty0)) = stateDataDirty0\<lparr>saltoMetadata := [(''hash'', hashDirty0)]\<rparr>
   \<and> \<not> dirty (snd (flush env0 stateDirty0))"
proof -
  have l: "\<not> dirty stateLoaded0" "\<not> cacheDirty stateLoaded0" by (simp_all add: stateLoaded0_fields)
  have st: "\<not> dirty stateStale0" "cacheDirty stateStale0"
    "fst (stateData env0 stateStale0) = Inr stateData0" "durable stateStale0 = blobs0"
    by (simp_all add: stateStale0_eq stateUnloaded0_def localState_def stateData_loaded)
  have d: "dirty stateDirty0" by (simp add: stateDirty0_fields)
  obtain s1 where f1: "flush env0 stateStale0 = (Inr (), s1)" using flushStale0 by simp
  obtain s2 where f2: "flush env0 stateDirty0 = (Inr (), s2)" using flushDirty0 by simp
  have m2: "contentsAndHash s2 = Some (Inr [contentAccountCase0, contentTicket0])"
    "innerStateData s2 = Some (Inr (stateDataDirty0\<lparr>saltoMetadata := [(''hash'', hashDirty0)]\<rparr>))"
    using f2 by (auto simp: flushDirty0)
  have A: "flush env0 stateLoaded0 = (Inr (), stateLoaded0)"
    using flush_effects [of stateLoaded0 env0] l by blast
  have B: "remoteMaps s1 = stateData0 \<and> \<not> cacheDirty s1 \<and> durable s1 = blobs0"
    using flush_effects [of stateStale0 env0] st f1 by auto
  from flush_effects [of stateDirty0 env0] d f2 obtain contents sd where
    c: "contentsAndHash s2 = Some (Inr contents)"
      "durable s2 = (durable stateDirty0)(storageOf (currentContentProvider stateDirty0) :=
         (durable stateDirty0 (storageOf (currentContentProvider stateDirty0)))
           (currentFilePrefix stateDirty0 := contents))"
      "innerStateData s2 = Some (Inr sd)" "remoteMaps s2 = sd" "\<not> dirty s2"
    by blast
  from c m2 have C: "durable s2 LocalFileSystem prefix0 = [contentAccountCase0, contentTicket0]"
    "remoteMaps s2 = stateDataDirty0\<lparr>saltoMetadata := [(''hash'', hashDirty0)]\<rparr>" "\<not> dirty s2"
    by (simp_all add: stateDirty0_fields fileProvider0_def)
  from l st d A B C f1 f2 show ?thesis by simp
qed

subsection \<open>Failing writes\<close>

lemma flush_write_fail_again:
  assumes "dirty s" and "writeFails s (storageOf (currentContentProvider s))"
    and "fst (getContentAndHash env (mkdirp (path_dirname (currentFilePrefix s)) s)) = Inr contents"
  shows "\<exists>s1. flush env s = (Inl BackendIOError, s1) \<and> dirty s1
           \<and> durable s1 = durable s \<and> remoteMaps s1 = remoteMaps s
           \<and> contentsAndHash s1 = Some (Inr contents)
           \<and> currentFilePrefix s1 = currentFilePrefix s
           \<and> currentContentProvider s1 = currentContentProvider s
           \<and> writeFails s1 = writeFails s
           \<and> operations (events s1) = operations (events s) @
                [EvMkdirp (path_dirname (currentFilePrefix s)),
                 EvWriteContents (storageOf (currentContentProvider s)) (currentFilePrefix s)]"
proof -
  let ?s0 = "mkdirp (path_dirname (currentFilePrefix s)) s"
  obtain s1 where g: "getContentAndHash env ?s0 = (Inr contents, s1)"
    using assms(3) by (cases "getContentAndHash env ?s0") simp
  have fr: "loadFrame ?s0 s1" and m1: "contentsAndHash s1 = Some (Inr contents)"
    using getContentAndHash_frame [where s="?s0" and env=env] g by simp_all
  note f1 = loadFrame_fields [OF fr, unfolded mkdirp_fields]
  from flush_dirty_write_fail [OF assms(1) g assms(2)] f1 m1 assms(1)
  show ?thesis by (simp add: operations_def)
qed

text \<open>
  Claim C7. When a dirty state is flushed, its content and hash are available and the
  provider's write fails, \<^verbatim>\<open>flush\<close> returns the provider's error, \<open>dirty\<close> stays set and
  the durable blobs are as before; a second \<^verbatim>\<open>flush\<close> creates the directory and
  attempts the write again (and fails the same way while the storage keeps failing),
  and once the storage accepts writes a successful \<^verbatim>\<open>flush\<close> writes the same content
  and clears \<open>dirty\<close>. In general \<open>dirty\<close> is set after a \<^verbatim>\<open>flush\<close> exactly when it was
  set before and the \<^verbatim>\<open>flush\<close> failed; when a \<^verbatim>\<open>flush\<close> clears it, the write and the
  persisting of the cache have both succeeded: the blobs under the prefix are the
  memoized content and the remote maps are the loaded cache.
\<close>

theorem flush_write_failure:
  "(dirty s \<and> writeFails s (storageOf (currentContentProvider s))
      \<and> fst (getContentAndHash env (mkdirp (path_dirname (currentFilePrefix s)) s)) = Inr contents \<longrightarrow>
      (\<exists>s1 s2. flush env s = (Inl BackendIOError, s1) \<and> dirty s1 \<and> durable s1 = durable s
         \<and> flush env s1 = (Inl BackendIOError, s2) \<and> dirty s2 \<and> durable s2 = durable s
         \<and> operations (events s2) = operations (events s1) @
              [EvMkdirp (path_dirname (currentFilePrefix s)),
               EvWriteContents (storageOf (currentContentProvider s)) (currentFilePrefix s)]
         \<and> (\<forall>s3. flush env (s1\<lparr>writeFails := (\<lambda>st. False)\<rparr>) = (Inr (), s3) \<longrightarrow>
               durable s3 (storageOf (currentContentProvider s)) (currentFilePrefix s) = contents
             \<and> \<not> dirty s3)))
   \<and> (dirty (snd (flush env s)) \<longleftrightarrow> dirty s \<and> (\<exists>e. fst (flush env s) = Inl e))
   \<and> (dirty s \<and> \<not> dirty (snd (flush env s)) \<longrightarrow>
        fst (flush env s) = Inr ()
      \<and> \<not> writeFails s (storageOf (currentContentProvider s)) \<and> \<not> remoteMapFlushFails s
      \<and> (\<exists>sd. innerStateData (snd (flush env s)) = Some (Inr sd) \<and> remoteMaps (snd (flush env s)) = sd)
      \<and> contentsAndHash (snd (flush env s)) =
          Some (Inr (durable (snd (flush env s)) (storageOf (currentContentProvider s)) (currentFilePrefix s))))"
proof -
  let ?st = "storageOf (currentContentProvider s)"
  let ?p = "currentFilePrefix s"
  have A: "dirty s \<and> writeFails s ?st
      \<and> fst (getContentAndHash env (mkdirp (path_dirname ?p) s)) = Inr contents \<longrightarrow>
      (\<exists>s1 s2. flush env s = (Inl BackendIOError, s1) \<and> dirty s1 \<and> durable s1 = durable s
         \<and> flush env s1 = (Inl BackendIOError, s2) \<and> dirty s2 \<and> durable s2 = durable s
         \<and> operations (events s2) = operations (events s1) @ [EvMkdirp (path_dirname ?p), EvWriteContents ?st ?p]
         \<and> (\<forall>s3. flush env (s1\<lparr>writeFails := (\<lambda>st. False)\<rparr>) = (Inr (), s3) \<longrightarrow>
               durable s3 ?st ?p = contents \<and> \<not> dirty s3))"
  proof (intro impI, elim conjE)
    assume d: "dirty s" and wf: "writeFails s ?st"
      and c: "fst (getContentAndHash env (mkdirp (path_dirname ?p) s)) = Inr contents"
    from flush_write_fail_again [OF d wf c] obtain s1 where
      s1: "flush env s = (Inl BackendIOError, s1)" "dirty s1" "durable s1 = durable s"
        "contentsAndHash s1 = Some (Inr contents)" "currentFilePrefix s1 = ?p"
        "currentContentProvider s1 = currentContentProvider s" "writeFails s1 = writeFails s"
      by blast
    have c1: "fst (getContentAndHash env (mkdirp (path_dirname (currentFilePrefix s1)) s1)) = Inr contents"
      using s1(4) by (simp add: getContentAndHash_memo mkdirp_fields)
    have wf1: "writeFails s1 (storageOf (currentContentProvider s1))" using wf s1(6,7) by simp
    from flush_write_fail_again [OF s1(2) wf1 c1] obtain s2 where
      s2: "flush env s1 = (Inl BackendIOError, s2)" "dirty s2" "durable s2 = durable s1"
        "operations (events s2) = operations (events s1) @
           [EvMkdirp (path_dirname (currentFilePrefix s1)),
            EvWriteContents (storageOf (currentContentProvider s1)) (currentFilePrefix s1)]"
      by blast
    have rec: "\<forall>s3. flush env (s1\<lparr>writeFails := (\<lambda>st. False)\<rparr>) = (Inr (), s3) \<longrightarrow>
               durable s3 ?st ?p = contents \<and> \<not> dirty s3"
    proof (intro allI impI)
      fix s3 assume f3: "flush env (s1\<lparr>writeFails := (\<lambda>st. False)\<rparr>) = (Inr (), s3)"
      let ?r = "s1\<lparr>writeFails := (\<lambda>st. False)\<rparr>"
      have dr: "dirty ?r" using s1(2) by simp
      from flush_dirty_ok [OF dr f3] obtain contents' where
        k: "\<forall>r. contentsAndHash ?r = Some r \<longrightarrow> r = Inr contents'"
          "durable s3 = (durable ?r)(storageOf (currentContentProvider ?r) :=
             (durable ?r (storageOf (currentContentProvider ?r)))(currentFilePrefix ?r := contents'))"
          "\<not> dirty s3"
        by blast
      from k(1) s1(4) have "contents' = contents" by simp
      with k(2,3) s1(5,6) show "durable s3 ?st ?p = contents \<and> \<not> dirty s3" by simp
    qed
    from s1 s2 rec show "\<exists>s1 s2. flush env s = (Inl BackendIOError, s1) \<and> dirty s1 \<and> durable s1 = durable s
         \<and> flush env s1 = (Inl BackendIOError, s2) \<and> dirty s2 \<and> durable s2 = durable s
         \<and> operations (events s2) = operations (events s1) @ [EvMkdirp (path_dirname ?p), EvWriteContents ?st ?p]
         \<and> (\<forall>s3. flush env (s1\<lparr>writeFails := (\<lambda>st. False)\<rparr>) = (Inr (), s3) \<longrightarrow>
               durable s3 ?st ?p = contents \<and> \<not> dirty s3)"
      by (intro exI [of _ s1] exI [of _ s2]) simp
  qed
  have B: "dirty (snd (flush env s)) \<longleftrightarrow> dirty s \<and> (\<exists>e. fst (flush env s) = Inl e)"
    by (rule flush_dirty_after)
  have C: "dirty s \<and> \<not> dirty (snd (flush env s)) \<longrightarrow>
        fst (flush env s) = Inr ()
      \<and> \<not> writeFails s ?st \<and> \<not> remoteMapFlushFails s
      \<and> (\<exists>sd. innerStateData (snd (flush env s)) = Some (Inr sd) \<and> remoteMaps (snd (flush env s)) = sd)
      \<and> contentsAndHash (snd (flush env s)) = Some (Inr (durable (snd (flush env s)) ?st ?p))"
  proof (intro impI, elim conjE)
    assume d: "dirty s" and nd: "\<not> dirty (snd (flush env s))"
    obtain r s' where f: "flush env s = (r, s')" by (cases "flush env s")
    from B d nd f have r: "r = Inr ()" by (cases r) auto
    from flush_dirty_ok [OF d f [unfolded r]] f r
    show "fst (flush env s) = Inr ()
      \<and> \<not> writeFails s ?st \<and> \<not> remoteMapFlushFails s
      \<and> (\<exists>sd. innerStateData (snd (flush env s)) = Some (Inr sd) \<and> remoteMaps (snd (flush env s)) = sd)
      \<and> contentsAndHash (snd (flush env s)) = Some (Inr (durable (snd (flush env s)) ?st ?p))"
      by auto
  qed
  from A B C show ?thesis by blast
qed

lemma stateFailing0_fields:
  "dirty stateFailing0" "contentsAndHash stateFailing0 = None"
  "innerStateData stateFailing0 = Some (Inr stateDataDirty0)"
  "durable stateFailing0 = blobs0" "events stateFailing0 = []"
  "currentFilePrefix stateFailing0 = prefix0" "currentContentProvider stateFailing0 = fileProvider0"
  "\<not> cacheDirty stateFailing0" "remoteMaps stateFailing0 = stateData0"
  "writeFails stateFailing0 = (\<lambda>st. st = LocalFileSystem)" "\<not> remoteMapFlushFails stateFailing0"
  by (simp_all add: stateFailing0_def stateDirty0_fields)

lemma contentFailing0:
  "getContentAndHash env0 (mkdirp (path_dirname (currentFilePrefix stateFailing0)) stateFailing0) =
     (Inr [contentAccountCase0, contentTicket0],
      stateFailing0\<lparr>events := [EvMkdirp ''/ws/salto.config/states''],
                     contentsAndHash := Some (Inr [contentAccountCase0, contentTicket0])\<rparr>)"
  by (simp add: getContentAndHash_def contentsDirty0_any mkdirp_fields stateFailing0_fields)
     (simp add: mkdirp_def stateFailing0_fields prefix0_def)

lemma flushFailing0:
  "flush env0 stateFailing0 =
     (Inl BackendIOError,
      stateFailing0\<lparr>events := [EvMkdirp ''/ws/salto.config/states'', EvWriteContents LocalFileSystem prefix0],
                     contentsAndHash := Some (Inr [contentAccountCase0, contentTicket0])\<rparr>)"
  using flush_dirty_write_fail [OF stateFailing0_fields(1) contentFailing0]
  by (simp add: stateFailing0_fields fileProvider0_def)

lemma flushRecovered0:
  "fst (flush env0
     (stateFailing0\<lparr>events := [EvMkdirp ''/ws/salto.config/states'', EvWriteContents LocalFileSystem prefix0],
                     contentsAndHash := Some (Inr [contentAccountCase0, contentTicket0]),
                     writeFails := (\<lambda>st. False)\<rparr>)) = Inr ()"
  by (simp add: flush_def getContentAndHash_def mkdirp_def stateFailing0_fields
        writeContents_def inMemState_setHash_def inMemState_flush_def stateData_loaded Let_def)

theorem flush_write_failure_witness:
  "dirty stateFailing0 \<and> writeFails stateFailing0 (storageOf (currentContentProvider stateFailing0))
   \<and> fst (getContentAndHash env0 (mkdirp (path_dirname (currentFilePrefix stateFailing0)) stateFailing0))
       = Inr [contentAccountCase0, contentTicket0]
   \<and> fst (flush env0 stateFailing0) = Inl BackendIOError
   \<and> dirty (snd (flush env0 stateFailing0))
   \<and> durable (snd (flush env0 stateFailing0)) = blobs0
   \<and> fst (flush env0 (snd (flush env0 stateFailing0))) = Inl BackendIOError
   \<and> fst (flush env0 ((snd (flush env0 stateFailing0))\<lparr>writeFails := (\<lambda>st. False)\<rparr>)) = Inr ()
   \<and> durable (snd (flush env0 ((snd (flush env0 stateFailing0))\<lparr>writeFails := (\<lambda>st. False)\<rparr>)))
        LocalFileSystem prefix0 = [contentAccountCase0, contentTicket0]
   \<and> dirty stateDirty0 \<and> \<not> dirty (snd (flush env0 stateDirty0))
   \<and> fst (flush env0 stateDirty0) = Inr ()"
proof -
  have h: "dirty stateFailing0" "writeFails stateFailing0 (storageOf (currentContentProvider stateFailing0))"
    "fst (getContentAndHash env0 (mkdirp (path_dirname (currentFilePrefix stateFailing0)) stateFailing0))
       = Inr [contentAccountCase0, contentTicket0]"
    using contentFailing0 by (simp_all add: stateFailing0_fields(1,7,10) fileProvider0_def)
  note t = flush_write_failure [of stateFailing0 env0 "[contentAccountCase0, contentTicket0]"]
  from t h obtain s1 s2 where
    k: "flush env0 stateFailing0 = (Inl BackendIOError, s1)" "dirty s1" "durable s1 = durable stateFailing0"
      "flush env0 s1 = (Inl BackendIOError, s2)"
      "\<forall>s3. flush env0 (s1\<lparr>writeFails := (\<lambda>st. False)\<rparr>) = (Inr (), s3) \<longrightarrow>
          durable s3 (storageOf (currentContentProvider stateFailing0)) (currentFilePrefix stateFailing0)
            = [contentAccountCase0, contentTicket0] \<and> \<not> dirty s3"
    by blast
  have s1: "s1 = stateFailing0\<lparr>events := [EvMkdirp ''/ws/salto.config/states'', EvWriteContents LocalFileSystem prefix0],
                     contentsAndHash := Some (Inr [contentAccountCase0, contentTicket0])\<rparr>"
    using k(1) flushFailing0 by simp
  obtain s3 where r: "flush env0 (s1\<lparr>writeFails := (\<lambda>st. False)\<rparr>) = (Inr (), s3)"
    using flushRecovered0 by (cases "flush env0 (s1\<lparr>writeFails := (\<lambda>st. False)\<rparr>)") (simp add: s1)
  from k(5) r have w: "durable s3 LocalFileSystem prefix0 = [contentAccountCase0, contentTicket0]"
    by (simp add: stateFailing0_fields fileProvider0_def)
  have d: "dirty stateDirty0" "\<not> dirty (snd (flush env0 stateDirty0))"
    by (simp_all add: stateDirty0_fields flushDirty0)
  from flush_write_failure [of stateDirty0 env0 "[]"] d have e: "fst (flush env0 stateDirty0) = Inr ()"
    by blast
  from h k(1-4) r w d e show ?thesis by (simp add: stateFailing0_fields)
qed

subsection \<open>Changing the backend\<close>

lemma tempPrefixOf_neq: "tempPrefixOf p \<noteq> p"
  by (cases p) (simp add: tempPrefixOf_def path_join_def)

lemma path_join_dirname_basename: "path_join (path_dirname p) (path_basename p) = p"
  by (cases p) (simp add: path_join_def)

lemma updateConfig_writeNew_ok:
  assumes "updateConfig_writeNew env args s = (Inr (newProvider, tempPrefix), s2)"
  shows "getStateContentProvider env (workspaceId args) (stateConfig args) = Inr newProvider"
    and "tempPrefix = tempPrefixOf (currentFilePrefix s)"
    and "\<not> writeFails s (storageOf newProvider)"
    and "\<exists>contents s1. getContentAndHash env s = (Inr contents, s1)
           \<and> s2 = s1\<lparr>events := events s1 @ [EvWriteContents (storageOf newProvider) tempPrefix],
                      durable := (durable s)(storageOf newProvider :=
                        (durable s (storageOf newProvider))(tempPrefix := contents))\<rparr>"
proof -
  from assms obtain p where p: "getStateContentProvider env (workspaceId args) (stateConfig args) = Inr p"
    by (cases "getStateContentProvider env (workspaceId args) (stateConfig args)")
       (simp_all add: updateConfig_writeNew_def)
  obtain r s1 where g: "getContentAndHash env s = (r, s1)" by (cases "getContentAndHash env s")
  from assms p g obtain contents where r: "r = Inr contents"
    by (cases r) (simp_all add: updateConfig_writeNew_def)
  note f = loadFrame_fields [OF getContentAndHash_frame(1) [of s env], unfolded g snd_conv]
  from assms p g r f have all: "p = newProvider \<and> tempPrefix = tempPrefixOf (currentFilePrefix s)
       \<and> \<not> writeFails s (storageOf newProvider)
       \<and> s2 = s1\<lparr>events := events s1 @ [EvWriteContents (storageOf newProvider) tempPrefix],
                      durable := (durable s)(storageOf newProvider :=
                        (durable s (storageOf newProvider))(tempPrefix := contents))\<rparr>"
    by (auto simp: updateConfig_writeNew_def writeContents_def Let_def split: if_splits)
  with p show "getStateContentProvider env (workspaceId args) (stateConfig args) = Inr newProvider"
    by simp
  from all show "tempPrefix = tempPrefixOf (currentFilePrefix s)" by simp
  from all show "\<not> writeFails s (storageOf newProvider)" by simp
  from all g r show "\<exists>contents s1. getContentAndHash env s = (Inr contents, s1)
           \<and> s2 = s1\<lparr>events := events s1 @ [EvWriteContents (storageOf newProvider) tempPrefix],
                      durable := (durable s)(storageOf newProvider :=
                        (durable s (storageOf newProvider))(tempPrefix := contents))\<rparr>"
    by simp
qed

lemma clear_fields:
  "dirty (clear prov p s) = dirty s" "cacheDirty (clear prov p s) = cacheDirty s"
  "contentsAndHash (clear prov p s) = contentsAndHash s"
  "currentFilePrefix (clear prov p s) = currentFilePrefix s"
  "currentContentProvider (clear prov p s) = currentContentProvider s"
  "innerStateData (clear prov p s) = innerStateData s" "remoteMaps (clear prov p s) = remoteMaps s"
  "writeFails (clear prov p s) = writeFails s"
  "remoteMapFlushFails (clear prov p s) = remoteMapFlushFails s"
  "events (clear prov p s) = events s @ [EvClear (storageOf prov) p]"
  "durable (clear prov p s) = (durable s)(storageOf prov := (durable s (storageOf prov))(p := []))"
  by (simp_all add: clear_def)

lemma rename_fields:
  "dirty (rename prov p b s) = dirty s" "cacheDirty (rename prov p b s) = cacheDirty s"
  "contentsAndHash (rename prov p b s) = contentsAndHash s"
  "currentFilePrefix (rename prov p b s) = currentFilePrefix s"
  "currentContentProvider (rename prov p b s) = currentContentProvider s"
  "innerStateData (rename prov p b s) = innerStateData s" "remoteMaps (rename prov p b s) = remoteMaps s"
  "writeFails (rename prov p b s) = writeFails s"
  "remoteMapFlushFails (rename prov p b s) = remoteMapFlushFails s"
  "events (rename prov p b s) = events s @ [EvRename (storageOf prov) p b]"
  "durable (rename prov p b s) = (durable s)(storageOf prov :=
     (durable s (storageOf prov))(p := [], path_join (path_dirname p) b := durable s (storageOf prov) p))"
  by (simp_all add: rename_def)

lemma updateConfig_ok:
  assumes "updateConfig env args s = (Inr u, s')"
  shows "\<exists>newProvider contents s1.
           getStateContentProvider env (workspaceId args) (stateConfig args) = Inr newProvider
         \<and> getContentAndHash env s = (Inr contents, s1)
         \<and> updateConfig_writeNew env args s =
             (Inr (newProvider, tempPrefixOf (currentFilePrefix s)),
              s1\<lparr>events := events s1 @ [EvWriteContents (storageOf newProvider) (tempPrefixOf (currentFilePrefix s))],
                 durable := (durable s)(storageOf newProvider :=
                   (durable s (storageOf newProvider))(tempPrefixOf (currentFilePrefix s) := contents))\<rparr>)
         \<and> s' = rename newProvider (tempPrefixOf (currentFilePrefix s)) (path_basename (currentFilePrefix s))
                  (clear (currentContentProvider s) (currentFilePrefix s)
                    (s1\<lparr>events := events s1 @ [EvWriteContents (storageOf newProvider) (tempPrefixOf (currentFilePrefix s))],
                       durable := (durable s)(storageOf newProvider :=
                         (durable s (storageOf newProvider))(tempPrefixOf (currentFilePrefix s) := contents))\<rparr>))
                 \<lparr>currentContentProvider := newProvider\<rparr>"
proof -
  obtain r s2 where w: "updateConfig_writeNew env args s = (r, s2)"
    by (cases "updateConfig_writeNew env args s")
  from assms w obtain newProvider tempPrefix where r: "r = Inr (newProvider, tempPrefix)"
    by (cases r) (auto simp: updateConfig_def)
  note k = updateConfig_writeNew_ok [OF w [unfolded r]]
  from k(4) obtain contents s1 where g: "getContentAndHash env s = (Inr contents, s1)"
    and s2: "s2 = s1\<lparr>events := events s1 @ [EvWriteContents (storageOf newProvider) tempPrefix],
                      durable := (durable s)(storageOf newProvider :=
                        (durable s (storageOf newProvider))(tempPrefix := contents))\<rparr>"
    by blast
  note f = loadFrame_fields [OF getContentAndHash_frame(1) [of s env], unfolded g snd_conv]
  have "s' = rename newProvider tempPrefix (path_basename (currentFilePrefix s))
                  (clear (currentContentProvider s) (currentFilePrefix s) s2)
                 \<lparr>currentContentProvider := newProvider\<rparr>"
  proof -
    have a: "currentContentProvider s2 = currentContentProvider s" "currentFilePrefix s2 = currentFilePrefix s"
      using f by (simp_all add: s2)
    show ?thesis
      using assms w r a by (simp add: updateConfig_def Let_def inMemState_updateConfig_def clear_fields)
  qed
  with k(1,2) g s2 w r show ?thesis by simp
qed

subsection \<open>Migration\<close>

lemma getContentAndHash_ok_loaded:
  assumes "memoLoaded s" and "getContentAndHash env s = (Inr contents, s1)"
  shows "\<exists>sd. fst (stateData env s) = Inr sd \<and> innerStateData s1 = Some (Inr sd)"
proof (cases "contentsAndHash s")
  case None
  with assms(2) obtain s0 where c: "calculateContentAndHash env s = (Inr contents, s0)"
    and s1: "s1 = s0\<lparr>contentsAndHash := Some (Inr contents)\<rparr>"
    by (cases "calculateContentAndHash env s") (auto simp: getContentAndHash_def)
  from calculateContentAndHash_ok_loaded [OF c] s1 show ?thesis by auto
next
  case (Some r)
  with assms(2) have r: "r = Inr contents" and s1: "s1 = s" by (simp_all add: getContentAndHash_def)
  from assms(1) Some r obtain sd where "innerStateData s = Some (Inr sd)"
    by (auto simp: memoLoaded_def split: option.splits sum.splits)
  then show ?thesis by (simp add: s1 stateData_loaded)
qed

lemma inMemState_getAll_loaded:
  "innerStateData s = Some (Inr sd) \<Longrightarrow> inMemState_getAll env s = (Inr (map snd (sd_elements sd)), s)"
  by (simp add: inMemState_getAll_def stateData_loaded)

lemma inMemState_getAll_fst:
  "fst (stateData env s) = Inr sd \<Longrightarrow> fst (inMemState_getAll env s) = Inr (map snd (sd_elements sd))"
  by (cases "stateData env s") (simp add: inMemState_getAll_def)

text \<open>
  Claim C1. Let \<^verbatim>\<open>updateConfig\<close> succeed on a state whose memoized contents, if any, come
  with loaded state data (as they do in every state the operations reach), migrating
  from the storage \<open>A\<close> of the current provider to the storage \<open>B\<close> of the new one.
  Then the content and hash of the current state are written by the new provider under
  the temporary prefix before the old provider clears the old prefix and before the
  rename; in the state in which a run stops after that write, the old prefix of \<open>A\<close>
  holds what it held before; after completion the new provider holds the content under
  the prefix and nothing under the temporary prefix, reading the elements of the state
  gives the same elements as before, and, \<open>A\<close> and \<open>B\<close> being different storages, the
  old prefix of \<open>A\<close> holds nothing.
\<close>

theorem updateConfig_migration:
  assumes ok: "updateConfig env args s = (Inr (), s')"
    and prov: "getStateContentProvider env (workspaceId args) (stateConfig args) = Inr newProvider"
    and inv: "memoLoaded s"
  shows "(let A = storageOf (currentContentProvider s); B = storageOf newProvider;
              old = currentFilePrefix s; tmp = tempPrefixOf old;
              mid = snd (updateConfig_writeNew env args s)
          in (\<exists>contents. fst (getContentAndHash env s) = Inr contents
                \<and> durable mid B tmp = contents
                \<and> durable s' B old = contents \<and> durable s' B tmp = [])
           \<and> operations (events mid) = operations (events s) @ [EvWriteContents B tmp]
           \<and> operations (events s') = operations (events s) @
                [EvWriteContents B tmp, EvClear A old, EvRename B tmp (path_basename old)]
           \<and> durable mid A old = durable s A old
           \<and> (B \<noteq> A \<longrightarrow> durable mid A = durable s A \<and> durable s' A old = [])
           \<and> (\<exists>elems. fst (inMemState_getAll env s) = Inr elems
                 \<and> fst (inMemState_getAll env s') = Inr elems)
           \<and> currentContentProvider s' = newProvider)"
proof -
  let ?A = "storageOf (currentContentProvider s)"
  let ?B = "storageOf newProvider"
  let ?old = "currentFilePrefix s"
  let ?tmp = "tempPrefixOf ?old"
  from updateConfig_ok [OF ok] prov obtain contents s1 where
    g: "getContentAndHash env s = (Inr contents, s1)"
    and w: "updateConfig_writeNew env args s =
             (Inr (newProvider, ?tmp),
              s1\<lparr>events := events s1 @ [EvWriteContents ?B ?tmp],
                 durable := (durable s)(?B := (durable s ?B)(?tmp := contents))\<rparr>)"
    and s': "s' = rename newProvider ?tmp (path_basename ?old)
                  (clear (currentContentProvider s) ?old
                    (s1\<lparr>events := events s1 @ [EvWriteContents ?B ?tmp],
                       durable := (durable s)(?B := (durable s ?B)(?tmp := contents))\<rparr>))
                 \<lparr>currentContentProvider := newProvider\<rparr>"
    by auto
  note f = loadFrame_fields [OF getContentAndHash_frame(1) [of s env], unfolded g snd_conv]
  define mid where "mid = s1\<lparr>events := events s1 @ [EvWriteContents ?B ?tmp],
                 durable := (durable s)(?B := (durable s ?B)(?tmp := contents))\<rparr>"
  have mid: "snd (updateConfig_writeNew env args s) = mid" using w by (simp add: mid_def)
  have ne: "?tmp \<noteq> ?old" by (rule tempPrefixOf_neq)
  have target: "path_join (path_dirname ?tmp) (path_basename ?old) = ?old"
    by (cases ?old) (simp add: tempPrefixOf_def path_join_def)
  have d1: "durable mid ?B ?tmp = contents" by (simp add: mid_def)
  have d2: "durable mid ?A ?old = durable s ?A ?old" using ne by (simp add: mid_def)
  have d3: "?B \<noteq> ?A \<longrightarrow> durable mid ?A = durable s ?A \<and> durable s' ?A ?old = []"
    by (simp add: mid_def s' rename_fields clear_fields)
  have d4: "durable s' ?B ?old = contents" using ne
    by (simp add: s' rename_fields clear_fields target)
  have d5: "durable s' ?B ?tmp = []" using ne
    by (simp add: s' rename_fields clear_fields target)
  have e1: "operations (events mid) = operations (events s) @ [EvWriteContents ?B ?tmp]"
    using f(8) by (simp add: mid_def operations_def)
  have e2: "operations (events s') = operations (events s) @
                [EvWriteContents ?B ?tmp, EvClear ?A ?old, EvRename ?B ?tmp (path_basename ?old)]"
    using f(8) by (simp add: s' rename_fields clear_fields operations_def)
  from getContentAndHash_ok_loaded [OF inv g] obtain sd where
    sd: "fst (stateData env s) = Inr sd" "innerStateData s1 = Some (Inr sd)" by blast
  have i': "innerStateData s' = Some (Inr sd)" using sd(2) by (simp add: s' rename_fields clear_fields)
  have el: "fst (inMemState_getAll env s) = Inr (map snd (sd_elements sd))"
    "fst (inMemState_getAll env s') = Inr (map snd (sd_elements sd))"
    using sd(1) i' by (simp_all add: inMemState_getAll_fst inMemState_getAll_loaded)
  have p': "currentContentProvider s' = newProvider" by (simp add: s')
  from g d1 d2 d3 d4 d5 e1 e2 el p' show ?thesis
    unfolding Let_def mid by auto
qed


lemma provS3: "getStateContentProvider env0 (workspaceId argsS3) (stateConfig argsS3) = Inr s3Provider0"
  by (simp add: getStateContentProvider_def argsS3_def s3Provider0_def)

lemma migrateLoaded0:
  "updateConfig env0 argsS3 stateLoaded0 =
     (Inr (), stateLoaded0\<lparr>
        contentsAndHash := Some (Inr [contentAccount0, contentTicket0]),
        currentContentProvider := s3Provider0,
        events := [EvWriteContents (S3Bucket ''ws'' ''states'') (tempPrefixOf prefix0),
                   EvClear LocalFileSystem prefix0,
                   EvRename (S3Bucket ''ws'' ''states'') (tempPrefixOf prefix0) ''env1''],
        durable := blobs0(S3Bucket ''ws'' ''states'' :=
                     (blobs0 (S3Bucket ''ws'' ''states''))
                       (tempPrefixOf prefix0 := [], prefix0 := [contentAccount0, contentTicket0]),
                   LocalFileSystem := (blobs0 LocalFileSystem)(prefix0 := []))\<rparr>)"
  apply (simp add: updateConfig_def updateConfig_writeNew_def provS3 getContentAndHash_def contents0
      stateLoaded0_fields writeContents_def Let_def inMemState_updateConfig_def)
  apply (simp add: clear_def rename_def s3Provider0_def fileProvider0_def stateLoaded0_fields)
  apply (simp add: prefix0_def tempPrefixOf_def path_join_def fun_upd_twist)
  done


theorem updateConfig_migration_witness:
  "fst (updateConfig env0 argsS3 stateLoaded0) = Inr ()
   \<and> getStateContentProvider env0 (workspaceId argsS3) (stateConfig argsS3) = Inr s3Provider0
   \<and> storageOf s3Provider0 \<noteq> storageOf (currentContentProvider stateLoaded0)
   \<and> memoLoaded stateLoaded0
   \<and> durable (snd (updateConfig_writeNew env0 argsS3 stateLoaded0)) LocalFileSystem prefix0
        = [contentAccount0, contentTicket0]
   \<and> durable (snd (updateConfig env0 argsS3 stateLoaded0)) LocalFileSystem prefix0 = []
   \<and> durable (snd (updateConfig env0 argsS3 stateLoaded0)) (S3Bucket ''ws'' ''states'') prefix0
        = [contentAccount0, contentTicket0]
   \<and> fst (inMemState_getAll env0 stateLoaded0) = Inr [elemAccount0, elemTicket0]
   \<and> fst (inMemState_getAll env0 (snd (updateConfig env0 argsS3 stateLoaded0)))
        = Inr [elemAccount0, elemTicket0]"
proof -
  obtain s' where ok: "updateConfig env0 argsS3 stateLoaded0 = (Inr (), s')"
    using migrateLoaded0 by simp
  have inv: "memoLoaded stateLoaded0" by (simp add: memoLoaded_def stateLoaded0_fields)
  have ne: "storageOf s3Provider0 \<noteq> storageOf (currentContentProvider stateLoaded0)"
    by (simp add: s3Provider0_def stateLoaded0_fields fileProvider0_def)
  have c: "fst (getContentAndHash env0 stateLoaded0) = Inr [contentAccount0, contentTicket0]"
    by (simp add: getContentAndHash_def stateLoaded0_fields contents0)
  have e: "fst (inMemState_getAll env0 stateLoaded0) = Inr [elemAccount0, elemTicket0]"
    by (simp add: inMemState_getAll_loaded [OF stateLoaded0_fields(4)] stateData0_def)
  have b: "durable stateLoaded0 LocalFileSystem prefix0 = [contentAccount0, contentTicket0]"
    by (simp add: stateLoaded0_fields blobs0_def)
  note t = updateConfig_migration [OF ok provS3 inv, unfolded Let_def]
  from t ne c e b ok inv provS3 show ?thesis
    by (auto simp: stateLoaded0_fields fileProvider0_def s3Provider0_def)
qed

lemma calculateContentAndHash_loaded:
  "innerStateData s \<noteq> None \<Longrightarrow> snd (calculateContentAndHash env s) = s"
  using calculateContentAndHash_frame(3) [of env s] by (auto simp: stateData_loaded)

text \<open>
  Claim C10, as the code has it. A successful \<^verbatim>\<open>updateConfig\<close> leaves \<open>dirty\<close>, the
  current file prefix and the remote maps unchanged, makes the new provider the current
  one, and renames the new provider's temporary content to the base name of the prefix.
  It always ends with a memoized content and hash: the one there was, or else the one
  it computes. When a memoized content and hash exists, or the state data was already
  loaded, \<open>cacheDirty\<close> and the loaded data are unchanged and nothing is read; otherwise
  the computation loads the state data, which may read and reparse the durable content
  and set \<open>cacheDirty\<close>.
\<close>

theorem updateConfig_frame:
  assumes ok: "updateConfig env args s = (Inr (), s')"
    and prov: "getStateContentProvider env (workspaceId args) (stateConfig args) = Inr newProvider"
  shows "dirty s' = dirty s \<and> currentFilePrefix s' = currentFilePrefix s
       \<and> currentContentProvider s' = newProvider
       \<and> remoteMaps s' = remoteMaps s
       \<and> last (events s') = EvRename (storageOf newProvider) (tempPrefixOf (currentFilePrefix s))
                               (path_basename (currentFilePrefix s))
       \<and> contentsAndHash s' = Some (fst (getContentAndHash env s))
       \<and> (contentsAndHash s = None \<longrightarrow> contentsAndHash s' = Some (fst (calculateContentAndHash env s)))
       \<and> (contentsAndHash s \<noteq> None \<or> innerStateData s \<noteq> None \<longrightarrow>
            cacheDirty s' = cacheDirty s \<and> innerStateData s' = innerStateData s
          \<and> filter isReadContents (events s') = filter isReadContents (events s))
       \<and> (contentsAndHash s \<noteq> None \<longrightarrow> contentsAndHash s' = contentsAndHash s)"
proof -
  let ?B = "storageOf newProvider"
  let ?old = "currentFilePrefix s"
  let ?tmp = "tempPrefixOf ?old"
  from updateConfig_ok [OF ok] prov obtain contents s1 where
    g: "getContentAndHash env s = (Inr contents, s1)"
    and s': "s' = rename newProvider ?tmp (path_basename ?old)
                  (clear (currentContentProvider s) ?old
                    (s1\<lparr>events := events s1 @ [EvWriteContents ?B ?tmp],
                       durable := (durable s)(?B := (durable s ?B)(?tmp := contents))\<rparr>))
                 \<lparr>currentContentProvider := newProvider\<rparr>"
    by auto
  note f = loadFrame_fields [OF getContentAndHash_frame(1) [of s env], unfolded g snd_conv]
  have m1: "contentsAndHash s1 = Some (Inr contents)"
    using getContentAndHash_frame(2) [of env s] g by simp
  have a: "dirty s' = dirty s" "currentFilePrefix s' = ?old" "currentContentProvider s' = newProvider"
    "remoteMaps s' = remoteMaps s"
    "last (events s') = EvRename ?B ?tmp (path_basename ?old)"
    "contentsAndHash s' = Some (fst (getContentAndHash env s))"
    using f m1 g by (simp_all add: s' rename_fields clear_fields)
  have b: "contentsAndHash s = None \<longrightarrow> contentsAndHash s' = Some (fst (calculateContentAndHash env s))"
    using a(6) by (auto simp: getContentAndHash_def split_beta)
  have same: "contentsAndHash s \<noteq> None \<or> innerStateData s \<noteq> None \<Longrightarrow>
      cacheDirty s1 = cacheDirty s \<and> innerStateData s1 = innerStateData s \<and> events s1 = events s"
    using g calculateContentAndHash_loaded [of s env]
    by (cases "contentsAndHash s")
       (auto simp: getContentAndHash_def split_beta)
  have c: "contentsAndHash s \<noteq> None \<or> innerStateData s \<noteq> None \<longrightarrow>
            cacheDirty s' = cacheDirty s \<and> innerStateData s' = innerStateData s
          \<and> filter isReadContents (events s') = filter isReadContents (events s)"
    using same by (auto simp: s' rename_fields clear_fields)
  have d: "contentsAndHash s \<noteq> None \<longrightarrow> contentsAndHash s' = contentsAndHash s"
    using a(6) by (auto simp: getContentAndHash_def)
  from a b c d show ?thesis by blast
qed

lemma stateData_unloaded0: "stateData env0 stateUnloaded0 = (Inr stateData0, stateStale0)"
  by (simp add: stateStale0_def stateData_def example_defs load_defs Let_def)

lemma contentsUnloaded0:
  "calculateContentAndHash env0 stateUnloaded0 = (Inr [contentAccount0, contentTicket0], stateStale0)"
  using contents0
  by (simp add: calculateContentAndHash_eq stateData_unloaded0 stateData_loaded stateLoaded0_fields)

subsection \<open>Migrating the example workspaces\<close>

lemma stateMemo0_eq:
  "stateMemo0 = stateLoaded0\<lparr>contentsAndHash := Some (Inr [contentAccount0, contentTicket0])\<rparr>"
  by (simp add: stateMemo0_def getContentAndHash_def stateLoaded0_fields contents0)

lemma migrateMemo0:
  "updateConfig env0 argsS3 stateMemo0 =
     (Inr (), stateMemo0\<lparr>
        currentContentProvider := s3Provider0,
        events := [EvWriteContents (S3Bucket ''ws'' ''states'') (tempPrefixOf prefix0),
                   EvClear LocalFileSystem prefix0,
                   EvRename (S3Bucket ''ws'' ''states'') (tempPrefixOf prefix0) ''env1''],
        durable := blobs0(S3Bucket ''ws'' ''states'' :=
                     (blobs0 (S3Bucket ''ws'' ''states''))
                       (tempPrefixOf prefix0 := [], prefix0 := [contentAccount0, contentTicket0]),
                   LocalFileSystem := (blobs0 LocalFileSystem)(prefix0 := []))\<rparr>)"
  apply (simp add: updateConfig_def updateConfig_writeNew_def provS3 getContentAndHash_def
      stateMemo0_eq stateLoaded0_fields writeContents_def Let_def inMemState_updateConfig_def)
  apply (simp add: clear_def rename_def s3Provider0_def fileProvider0_def stateLoaded0_fields)
  apply (simp add: prefix0_def tempPrefixOf_def path_join_def fun_upd_twist)
  done

lemma stateStale0_fields:
  "\<not> dirty stateStale0" "cacheDirty stateStale0" "contentsAndHash stateStale0 = None"
  "innerStateData stateStale0 = Some (Inr stateData0)" "durable stateStale0 = blobs0"
  "events stateStale0 = [EvReadContents LocalFileSystem [(prefix0, ''salesforce''), (prefix0, ''zendesk'')]]"
  "currentFilePrefix stateStale0 = prefix0"
  "currentContentProvider stateStale0 = fileProvider0" "remoteMaps stateStale0 = emptyStateData"
  "writeFails stateStale0 = (\<lambda>_. False)" "\<not> remoteMapFlushFails stateStale0"
  by (simp_all add: stateStale0_eq stateUnloaded0_def localState_def)

lemma migrateUnloaded0:
  "updateConfig env0 argsS3 stateUnloaded0 =
     (Inr (), stateStale0\<lparr>
        contentsAndHash := Some (Inr [contentAccount0, contentTicket0]),
        currentContentProvider := s3Provider0,
        events := [EvReadContents LocalFileSystem [(prefix0, ''salesforce''), (prefix0, ''zendesk'')],
                   EvWriteContents (S3Bucket ''ws'' ''states'') (tempPrefixOf prefix0),
                   EvClear LocalFileSystem prefix0,
                   EvRename (S3Bucket ''ws'' ''states'') (tempPrefixOf prefix0) ''env1''],
        durable := blobs0(S3Bucket ''ws'' ''states'' :=
                     (blobs0 (S3Bucket ''ws'' ''states''))
                       (tempPrefixOf prefix0 := [], prefix0 := [contentAccount0, contentTicket0]),
                   LocalFileSystem := (blobs0 LocalFileSystem)(prefix0 := []))\<rparr>)"
  apply (simp add: updateConfig_def updateConfig_writeNew_def provS3 getContentAndHash_def
      contentsUnloaded0 writeContents_def Let_def inMemState_updateConfig_def
      stateUnloaded0_def [unfolded localState_def, THEN arg_cong [where f=contentsAndHash], simplified]
      stateStale0_fields)
  apply (simp add: clear_def rename_def s3Provider0_def fileProvider0_def stateStale0_fields)
  apply (simp add: prefix0_def tempPrefixOf_def path_join_def fun_upd_twist)
  done

theorem updateConfig_frame_witness:
  "fst (updateConfig env0 argsS3 stateLoaded0) = Inr ()
   \<and> getStateContentProvider env0 (workspaceId argsS3) (stateConfig argsS3) = Inr s3Provider0
   \<and> contentsAndHash stateLoaded0 = None \<and> innerStateData stateLoaded0 \<noteq> None
   \<and> contentsAndHash (snd (updateConfig env0 argsS3 stateLoaded0))
        = Some (Inr [contentAccount0, contentTicket0])
   \<and> \<not> cacheDirty (snd (updateConfig env0 argsS3 stateLoaded0))
   \<and> \<not> dirty (snd (updateConfig env0 argsS3 stateLoaded0))
   \<and> currentFilePrefix (snd (updateConfig env0 argsS3 stateLoaded0)) = prefix0
   \<and> currentContentProvider (snd (updateConfig env0 argsS3 stateLoaded0)) = s3Provider0
   \<and> fst (updateConfig env0 argsS3 stateMemo0) = Inr ()
   \<and> contentsAndHash stateMemo0 \<noteq> None
   \<and> contentsAndHash (snd (updateConfig env0 argsS3 stateMemo0)) = contentsAndHash stateMemo0
   \<and> innerStateData (snd (updateConfig env0 argsS3 stateMemo0)) = innerStateData stateMemo0
   \<and> filter isReadContents (events (snd (updateConfig env0 argsS3 stateMemo0))) = []"
proof -
  obtain s1 where ok1: "updateConfig env0 argsS3 stateLoaded0 = (Inr (), s1)"
    using migrateLoaded0 by simp
  obtain s2 where ok2: "updateConfig env0 argsS3 stateMemo0 = (Inr (), s2)"
    using migrateMemo0 by simp
  have c: "fst (calculateContentAndHash env0 stateLoaded0) = Inr [contentAccount0, contentTicket0]"
    by (simp add: contents0)
  have m: "contentsAndHash stateMemo0 \<noteq> None" "events stateMemo0 = []"
    by (simp_all add: stateMemo0_eq stateLoaded0_fields)
  from updateConfig_frame [OF ok1 provS3]
  have a1: "contentsAndHash s1 = Some (fst (calculateContentAndHash env0 stateLoaded0))"
    "cacheDirty s1 = cacheDirty stateLoaded0" "dirty s1 = dirty stateLoaded0"
    "currentFilePrefix s1 = currentFilePrefix stateLoaded0" "currentContentProvider s1 = s3Provider0"
    by (auto simp: stateLoaded0_fields)
  from updateConfig_frame [OF ok2 provS3] m
  have a2: "contentsAndHash s2 = contentsAndHash stateMemo0"
    "innerStateData s2 = innerStateData stateMemo0"
    "filter isReadContents (events s2) = []"
    by auto
  from a1 a2 ok1 ok2 c m(1) provS3 show ?thesis
    by (simp add: stateLoaded0_fields)
qed

text \<open>
  Claim C10 as stated, that \<^verbatim>\<open>updateConfig\<close> leaves \<open>cacheDirty\<close> and the memoized
  content and hash unchanged and triggers no reparse, fails on a workspace that was
  never loaded: the migration computes the content and hash, which loads the state
  data, finds the remote maps stale, reads and reparses the durable content, sets
  \<open>cacheDirty\<close> and memoizes the content.
\<close>

theorem updateConfig_frame_counterexample:
  "fst (updateConfig env0 argsS3 stateUnloaded0) = Inr ()
   \<and> contentsAndHash stateUnloaded0 = None
   \<and> contentsAndHash (snd (updateConfig env0 argsS3 stateUnloaded0))
        = Some (Inr [contentAccount0, contentTicket0])
   \<and> \<not> cacheDirty stateUnloaded0
   \<and> cacheDirty (snd (updateConfig env0 argsS3 stateUnloaded0))
   \<and> events stateUnloaded0 = []
   \<and> filter isReadContents (events (snd (updateConfig env0 argsS3 stateUnloaded0)))
        = [EvReadContents LocalFileSystem [(prefix0, ''salesforce''), (prefix0, ''zendesk'')]]
   \<and> innerStateData stateUnloaded0 = None
   \<and> innerStateData (snd (updateConfig env0 argsS3 stateUnloaded0)) = Some (Inr stateData0)"
  by (simp add: migrateUnloaded0 stateStale0_fields)
     (simp add: stateUnloaded0_def localState_def)

subsection \<open>Round trip of the serialization\<close>

lemma firstOccurrences_set: "set (firstOccurrences xs) = set xs"
  by (induction xs) auto

lemma firstOccurrences_distinct: "distinct (firstOccurrences xs)"
  by (induction xs) auto

lemma groupBy_keys: "set (map fst (groupBy f xs)) = f ` set xs"
  by (simp add: groupBy_def comp_def firstOccurrences_set)

lemma groupBy_member:
  "(k, ys) \<in> set (groupBy f xs) \<longleftrightarrow> k \<in> f ` set xs \<and> ys = filter (\<lambda>x. f x = k) xs"
  by (auto simp: groupBy_def firstOccurrences_set)

lemma groupBy_concat_set:
  "set (concat (map (\<lambda>(k, ys). g ys) (groupBy f xs))) = (\<Union>k \<in> f ` set xs. set (g (filter (\<lambda>x. f x = k) xs)))"
  by (auto simp: groupBy_def firstOccurrences_set)

text \<open>Setting all entries of a list in which no key has two values.\<close>

lemma setAll_absent:
  "k \<notin> fst ` set entries \<Longrightarrow> map_of (remoteMap_setAll entries m) k = map_of m k"
  unfolding remoteMap_setAll_def
  by (induction entries arbitrary: m) (auto simp: update_conv')

lemma setAll_present:
  assumes "(k, v) \<in> set entries"
    and "\<forall>v'. (k, v') \<in> set entries \<longrightarrow> v' = v"
  shows "map_of (remoteMap_setAll entries m) k = Some v"
  using assms
proof (induction entries arbitrary: m)
  case Nil
  then show ?case by simp
next
  case (Cons x entries)
  show ?case
  proof (cases "k \<in> fst ` set entries")
    case True
    then obtain v' where "(k, v') \<in> set entries" by auto
    with Cons.prems(2) have "(k, v) \<in> set entries" by auto
    moreover have "\<forall>v'. (k, v') \<in> set entries \<longrightarrow> v' = v" using Cons.prems(2) by auto
    ultimately have "map_of (remoteMap_setAll entries (AList.update (fst x) (snd x) m)) k = Some v"
      by (rule Cons.IH)
    then show ?thesis by (simp add: remoteMap_setAll_def split_beta)
  next
    case False
    with Cons.prems(1) have x: "x = (k, v)" by force
    have "map_of (remoteMap_setAll entries (AList.update k v m)) k = map_of (AList.update k v m) k"
      using False by (rule setAll_absent)
    then show ?thesis by (simp add: remoteMap_setAll_def x update_conv')
  qed
qed

lemma loadPathIndex_json: "loadPathIndex (map (\<lambda>(k, v). JArr [JStr k, v]) entries) = entries"
  by (induction entries) (auto simp: loadPathIndex_def)

lemma loadPathIndex_append: "loadPathIndex (xs @ ys) = loadPathIndex xs @ loadPathIndex ys"
  by (simp add: loadPathIndex_def)

lemma parse_account_lines:
  assumes "deserializeParsed env j0 = Some es"
  shows "parseStateLines env res [(0, j0), (1, JStr a), (2, pathIndexJson entries)]
         = Inr (res\<lparr>elements := elements res @ es, accounts := accounts res @ [JStr a],
                   pathIndices := pathIndices res @ map (\<lambda>(k, v). JArr [JStr k, v]) entries\<rparr>)"
  using assms by (simp add: pathIndexJson_def)

lemma parse_account_streams:
  assumes "list_all (\<lambda>(a, es). accountRoundTrip env sd a es) gs"
  shows "parseStateStreams env res (map (accountStream env sd) gs)
         = Inr (res\<lparr>elements := elements res @ concat (map (\<lambda>(a, es). sort_key fullName es) gs),
                   accounts := accounts res @ map (\<lambda>(a, es). JStr a) gs,
                   pathIndices := pathIndices res @
                     concat (map (\<lambda>(a, es). map (\<lambda>(k, v). JArr [JStr k, v])
                                                (pathEntriesOf a (sd_pathIndex sd))) gs)\<rparr>)"
  using assms
proof (induction gs arbitrary: res)
  case Nil
  show ?case by simp
next
  case (Cons g gs)
  obtain a es where g: "g = (a, es)" by (cases g)
  from Cons.prems g obtain j0 where
    dec: "gunzipJsonl env (stream (accountStream env sd g))
            = Some [(0, j0), (1, JStr a), (2, pathIndexJson (pathEntriesOf a (sd_pathIndex sd)))]"
    and des: "deserializeParsed env j0 = Some (sort_key fullName es)"
    by (auto simp: accountRoundTrip_def accountStream_def)
  have rest: "list_all (\<lambda>(a, es). accountRoundTrip env sd a es) gs" using Cons.prems by simp
  have "parseStateStreams env res (map (accountStream env sd) (g # gs))
        = parseStateStreams env
            (res\<lparr>elements := elements res @ sort_key fullName es, accounts := accounts res @ [JStr a],
               pathIndices := pathIndices res @
                 map (\<lambda>(k, v). JArr [JStr k, v]) (pathEntriesOf a (sd_pathIndex sd))\<rparr>)
            (map (accountStream env sd) gs)"
    by (simp only: list.map parseStateStreams.simps dec option.case parse_account_lines [OF des] sum.case)
  then show ?case
    by (simp add: Cons.IH [OF rest] g)
qed

lemma namedStreams_calculated:
  assumes "innerStateData s = Some (Inr sd)"
  shows "\<exists>cs. calculateContentAndHash env s = (Inr cs, s)
           \<and> namedStreams cs = map (accountStream env sd) (groupBy adapter (map snd (sd_elements sd)))
           \<and> map account cs = map fst (groupBy adapter (map snd (sd_elements sd)))"
  using assms
  by (simp add: calculateContentAndHash_eq stateData_loaded namedStreams_def accountStream_def
        Let_def split_beta comp_def)

lemma loadPathIndex_nil: "loadPathIndex [] = []"
  by (simp add: loadPathIndex_def)

lemma loadPathIndex_groups:
  "loadPathIndex (concat (map (\<lambda>(a, es). map (\<lambda>(k, v). JArr [JStr k, v]) (f a)) gs))
   = concat (map (\<lambda>(a, es). f a) gs)"
  by (induction gs) (auto simp: loadPathIndex_append loadPathIndex_json loadPathIndex_nil)

lemma round_trip_elements:
  assumes keyed: "distinct (map fst E)" "list_all (\<lambda>(k, e). k = fullName e) E"
    and xs: "set xs = snd ` set E"
  shows "map_of (elementsSource_setAll xs []) = map_of E"
proof
  fix k
  let ?entries = "map (\<lambda>e. (fullName e, e)) xs"
  have named: "\<And>k e. (k, e) \<in> set E \<Longrightarrow> k = fullName e"
    using keyed(2) by (auto simp: list_all_iff)
  show "map_of (elementsSource_setAll xs []) k = map_of E k"
  proof (cases "map_of E k")
    case None
    then have "k \<notin> fst ` set E" by (simp add: map_of_eq_None_iff)
    have "k \<notin> fst ` set ?entries"
    proof
      assume "k \<in> fst ` set ?entries"
      then obtain e where "e \<in> set xs" "fullName e = k" by auto
      with xs obtain k' where "(k', e) \<in> set E" by auto
      with named \<open>fullName e = k\<close> have "(k, e) \<in> set E" by auto
      with \<open>k \<notin> fst ` set E\<close> show False by force
    qed
    then have "map_of (remoteMap_setAll ?entries []) k = map_of [] k" by (rule setAll_absent)
    with None show ?thesis by (simp add: elementsSource_setAll_def)
  next
    case (Some e)
    then have in_E: "(k, e) \<in> set E" by (rule map_of_SomeD)
    then have k: "k = fullName e" by (rule named)
    from in_E xs have "e \<in> set xs" by force
    then have a: "(k, e) \<in> set ?entries" using k by auto
    have b: "\<forall>e'. (k, e') \<in> set ?entries \<longrightarrow> e' = e"
    proof (intro allI impI)
      fix e' assume "(k, e') \<in> set ?entries"
      then have "e' \<in> set xs" "fullName e' = k" by auto
      with xs obtain k' where "(k', e') \<in> set E" by auto
      with named \<open>fullName e' = k\<close> have "(k, e') \<in> set E" by auto
      with keyed(1) have "map_of E k = Some e'" by simp
      with Some show "e' = e" by simp
    qed
    from setAll_present [OF a b] Some show ?thesis by (simp add: elementsSource_setAll_def)
  qed
qed

lemma round_trip_pathIndex:
  assumes "distinct (map fst P)"
  shows "map_of (remoteMap_setAll (concat (map (\<lambda>(a, es). pathEntriesOf a P) gs)) []) k
         = (if adapterOf k \<in> fst ` set gs then map_of P k else None)"
proof -
  let ?entries = "concat (map (\<lambda>(a, es). pathEntriesOf a P) gs)"
  have mem: "\<And>k v. (k, v) \<in> set ?entries \<longleftrightarrow> (k, v) \<in> set P \<and> adapterOf k \<in> fst ` set gs"
    by (force simp: pathEntriesOf_def)
  show ?thesis
  proof (cases "adapterOf k \<in> fst ` set gs")
    case False
    with mem have "k \<notin> fst ` set ?entries" by force
    then have "map_of (remoteMap_setAll ?entries []) k = map_of [] k" by (rule setAll_absent)
    with False show ?thesis by simp
  next
    case True
    show ?thesis
    proof (cases "map_of P k")
      case None
      then have "k \<notin> fst ` set P" by (simp add: map_of_eq_None_iff)
      with mem have "k \<notin> fst ` set ?entries" by force
      then have "map_of (remoteMap_setAll ?entries []) k = map_of [] k" by (rule setAll_absent)
      with True None show ?thesis by simp
    next
      case (Some v)
      then have "(k, v) \<in> set P" by (rule map_of_SomeD)
      with mem True have a: "(k, v) \<in> set ?entries" by blast
      have b: "\<forall>v'. (k, v') \<in> set ?entries \<longrightarrow> v' = v"
      proof (intro allI impI)
        fix v' assume "(k, v') \<in> set ?entries"
        with mem have "(k, v') \<in> set P" by blast
        with assms have "map_of P k = Some v'" by simp
        with Some show "v' = v" by simp
      qed
      from setAll_present [OF a b] True Some show ?thesis by simp
    qed
  qed
qed

text \<open>
  Claim C4, as the code has it. Take loaded state data whose elements are stored under
  their full names, one per name, whose path index has one entry per identifier, and
  on whose account streams the library codec inverts itself. Serializing it per account
  and parsing the resulting compressed streams succeeds and gives back: an element
  collection that, stored under the full names, is the same map as the elements of the
  state; the account names of the split, which are the adapters of the elements; and a
  path index whose lookup agrees with the one of the state for every identifier whose
  account has an element, while identifiers of accounts without elements are not found,
  because their entries are not serialized.
\<close>

theorem serialize_parse_round_trip:
  assumes loaded: "innerStateData s = Some (Inr sd)"
    and keyed: "wellKeyed sd"
    and codec: "codecRoundTrip env sd"
  shows "\<exists>cs res. calculateContentAndHash env s = (Inr cs, s)
           \<and> parseStateContent env (namedStreams cs) = Inr res
           \<and> map_of (elementsSource_setAll (elements res) []) = map_of (sd_elements sd)
           \<and> accounts res = map JStr (map account cs)
           \<and> set (map account cs) = adapter ` snd ` set (sd_elements sd)
           \<and> (\<forall>k. map_of (remoteMap_setAll (loadPathIndex (pathIndices res)) []) k
                    = (if adapterOf k \<in> adapter ` snd ` set (sd_elements sd)
                       then map_of (sd_pathIndex sd) k else None))"
proof -
  let ?E = "sd_elements sd"
  let ?P = "sd_pathIndex sd"
  let ?gs = "groupBy adapter (map snd ?E)"
  from namedStreams_calculated [OF loaded, of env] obtain cs where
    cs: "calculateContentAndHash env s = (Inr cs, s)"
      "namedStreams cs = map (accountStream env sd) ?gs" "map account cs = map fst ?gs"
    by blast
  define res where "res = \<lparr>elements = concat (map (\<lambda>(a, es). sort_key fullName es) ?gs),
        accounts = map (\<lambda>(a, es). JStr a) ?gs,
        pathIndices = concat (map (\<lambda>(a, es). map (\<lambda>(k, v). JArr [JStr k, v]) (pathEntriesOf a ?P)) ?gs)\<rparr>"
  have parse: "parseStateContent env (namedStreams cs) = Inr res"
    using parse_account_streams [OF codec [unfolded codecRoundTrip_def],
        of "\<lparr>elements = [], accounts = [], pathIndices = []\<rparr>"]
    by (simp add: parseStateContent_def cs(2) res_def)
  have keys: "fst ` set ?gs = adapter ` snd ` set ?E"
    using groupBy_keys [of adapter "map snd ?E"] by simp
  have "set (elements res) = snd ` set ?E"
    using groupBy_concat_set [of "sort_key fullName" adapter "map snd ?E"]
    by (auto simp: res_def)
  with keyed have el: "map_of (elementsSource_setAll (elements res) []) = map_of ?E"
    by (intro round_trip_elements) (simp_all add: wellKeyed_def)
  have ac: "accounts res = map JStr (map account cs)"
    by (simp add: res_def cs(3) comp_def split_beta)
  have acs: "set (map account cs) = adapter ` snd ` set ?E"
    using keys by (simp add: cs(3))
  have "loadPathIndex (pathIndices res) = concat (map (\<lambda>(a, es). pathEntriesOf a ?P) ?gs)"
    by (simp add: res_def loadPathIndex_groups)
  with keyed keys have pi: "\<forall>k. map_of (remoteMap_setAll (loadPathIndex (pathIndices res)) []) k
                    = (if adapterOf k \<in> adapter ` snd ` set ?E then map_of ?P k else None)"
    using round_trip_pathIndex [of ?P ?gs] by (simp add: wellKeyed_def)
  from cs(1) parse el ac acs pi show ?thesis by blast
qed

subsection \<open>Round trip of the example workspace\<close>

lemma groups0:
  "groupBy adapter (map snd (sd_elements stateData0)) =
     [(''salesforce'', [elemAccount0]), (''zendesk'', [elemTicket0])]"
  by (simp add: stateData0_def groupBy_def adapter_def adapterOf_def elemAccount0_def elemTicket0_def)

lemma wellKeyed0: "wellKeyed stateData0"
  by (simp add: wellKeyed_def stateData0_def elemAccount0_def elemTicket0_def pathEntry0_def)

lemma streams0:
  "getStateStream env0 (serializeStream env0 [elemAccount0])
     (serializePathIndexByAccount env0 [pathEntry0]) ''salesforce''
   = stateText0 [elemAccount0] ''salesforce'' (print0 (pathIndexJson [pathEntry0]))"
  "getStateStream env0 (serializeStream env0 [elemTicket0])
     (serializePathIndexByAccount env0 [pathEntry0]) ''zendesk''
   = stateText0 [elemTicket0] ''zendesk'' ''[]''"
  by (simp_all add: getStateStream_def yieldWithEOL_def serializePathIndexByAccount_def groupBy_def
        adapterOf_def env0_def stateText0_def pathEntry0_def)

lemma decode0:
  "gunzipJsonl env0 (createGZipWriteStream env0
       (stateText0 [elemAccount0] ''salesforce'' (print0 (pathIndexJson [pathEntry0]))))
     = Some [(0, JArr [elemJson0 elemAccount0]), (1, JStr ''salesforce''), (2, pathIndexJson [pathEntry0])]"
  "gunzipJsonl env0 (createGZipWriteStream env0 (stateText0 [elemTicket0] ''zendesk'' ''[]''))
     = Some [(0, JArr [elemJson0 elemTicket0]), (1, JStr ''zendesk''), (2, JArr [])]"
  "deserializeParsed env0 (JArr [elemJson0 elemAccount0]) = Some [elemAccount0]"
  "deserializeParsed env0 (JArr [elemJson0 elemTicket0]) = Some [elemTicket0]"
  by (simp_all add: example_defs)

lemma pathEntries0:
  "sd_pathIndex stateData0 = [pathEntry0]"
  "pathEntriesOf ''salesforce'' [pathEntry0] = [pathEntry0]"
  "pathEntriesOf ''zendesk'' [pathEntry0] = []"
  by (simp_all add: stateData0_def pathEntriesOf_def adapterOf_def pathEntry0_def)

lemma codec0: "codecRoundTrip env0 stateData0"
proof -
  have a: "accountRoundTrip env0 stateData0 ''salesforce'' [elemAccount0]"
    unfolding accountRoundTrip_def
    by (rule exI [of _ "JArr [elemJson0 elemAccount0]"])
       (simp add: pathEntries0 streams0 decode0)
  have b: "accountRoundTrip env0 stateData0 ''zendesk'' [elemTicket0]"
    unfolding accountRoundTrip_def
    by (rule exI [of _ "JArr [elemJson0 elemTicket0]"])
       (simp add: pathEntries0 streams0 decode0 pathIndexJson_def)
  from a b show ?thesis by (simp add: codecRoundTrip_def groups0)
qed

lemma parse0:
  "parseStateContent env0 (namedStreams [contentAccount0, contentTicket0]) =
     Inr \<lparr>elements = [elemAccount0, elemTicket0],
          accounts = [JStr ''salesforce'', JStr ''zendesk''],
          pathIndices = [JArr [JStr ''salesforce.Account'', snd pathEntry0]]\<rparr>"
  by (simp add: namedStreams_def parseStateContent_def example_defs)

theorem serialize_parse_round_trip_witness:
  "innerStateData stateLoaded0 = Some (Inr stateData0) \<and> wellKeyed stateData0
   \<and> codecRoundTrip env0 stateData0
   \<and> calculateContentAndHash env0 stateLoaded0 = (Inr [contentAccount0, contentTicket0], stateLoaded0)
   \<and> parseStateContent env0 (namedStreams [contentAccount0, contentTicket0]) =
        Inr \<lparr>elements = [elemAccount0, elemTicket0],
             accounts = [JStr ''salesforce'', JStr ''zendesk''],
             pathIndices = [JArr [JStr ''salesforce.Account'', snd pathEntry0]]\<rparr>
   \<and> map_of (elementsSource_setAll [elemAccount0, elemTicket0] []) = map_of (sd_elements stateData0)
   \<and> map_of (remoteMap_setAll
         (loadPathIndex [JArr [JStr ''salesforce.Account'', snd pathEntry0]]) []) ''salesforce.Account''
       = Some (snd pathEntry0)
   \<and> map_of (remoteMap_setAll
         (loadPathIndex [JArr [JStr ''salesforce.Account'', snd pathEntry0]]) []) ''workato.Recipe''
       = None"
proof -
  note l = stateLoaded0_fields(4)
  from serialize_parse_round_trip [OF l wellKeyed0 codec0] obtain cs res where
    t: "calculateContentAndHash env0 stateLoaded0 = (Inr cs, stateLoaded0)"
      "parseStateContent env0 (namedStreams cs) = Inr res"
      "map_of (elementsSource_setAll (elements res) []) = map_of (sd_elements stateData0)"
      "\<forall>k. map_of (remoteMap_setAll (loadPathIndex (pathIndices res)) []) k
             = (if adapterOf k \<in> adapter ` snd ` set (sd_elements stateData0)
                then map_of (sd_pathIndex stateData0) k else None)"
    by blast
  from t(1) contents0 have cs: "cs = [contentAccount0, contentTicket0]" by simp
  from t(2) parse0 have res: "res = \<lparr>elements = [elemAccount0, elemTicket0],
          accounts = [JStr ''salesforce'', JStr ''zendesk''],
          pathIndices = [JArr [JStr ''salesforce.Account'', snd pathEntry0]]\<rparr>"
    by (simp add: cs)
  have ad: "adapterOf ''salesforce.Account'' \<in> adapter ` snd ` set (sd_elements stateData0)"
    "adapterOf ''workato.Recipe'' \<notin> adapter ` snd ` set (sd_elements stateData0)"
    "map_of (sd_pathIndex stateData0) ''salesforce.Account'' = Some (snd pathEntry0)"
    by (simp_all add: stateData0_def adapter_def adapterOf_def elemAccount0_def elemTicket0_def
          pathEntry0_def)
  from t(4) [rule_format, of "''salesforce.Account''"] t(4) [rule_format, of "''workato.Recipe''"] ad
  have p: "map_of (remoteMap_setAll (loadPathIndex (pathIndices res)) []) ''salesforce.Account''
             = Some (snd pathEntry0)"
    "map_of (remoteMap_setAll (loadPathIndex (pathIndices res)) []) ''workato.Recipe'' = None"
    by simp_all
  from l wellKeyed0 codec0 contents0 parse0 t(3) p show ?thesis
    by (simp add: res)
qed

lemma contentsOrphan0:
  "calculateContentAndHash env0 stateOrphan0 = (Inr [contentAccount0, contentTicket0], stateOrphan0)"
  by (simp add: calculateContentAndHash_eq stateData_loaded stateOrphan0_def stateData0_def
        groupBy_def adapter_def adapterOf_def getStateStream_def yieldWithEOL_def
        serializePathIndexByAccount_def example_defs pathEntryOrphan0_def Let_def)

text \<open>
  Claim C4 as stated, for every path index, fails: with elements of two accounts and a
  path index that also has an entry of a third account, the streams that are written
  are those of the two accounts, and after parsing them the identifier of the third
  account is not found in the path index, while the state found it.
\<close>

theorem round_trip_pathIndex_counterexample:
  "innerStateData stateOrphan0 = Some (Inr (stateData0\<lparr>sd_pathIndex := [pathEntry0, pathEntryOrphan0]\<rparr>))
   \<and> calculateContentAndHash env0 stateOrphan0 = (Inr [contentAccount0, contentTicket0], stateOrphan0)
   \<and> parseStateContent env0 (namedStreams [contentAccount0, contentTicket0]) =
        Inr \<lparr>elements = [elemAccount0, elemTicket0],
             accounts = [JStr ''salesforce'', JStr ''zendesk''],
             pathIndices = [JArr [JStr ''salesforce.Account'', snd pathEntry0]]\<rparr>
   \<and> map_of (remoteMap_setAll
         (loadPathIndex [JArr [JStr ''salesforce.Account'', snd pathEntry0]]) []) ''workato.Recipe''
       = None
   \<and> map_of [pathEntry0, pathEntryOrphan0] ''workato.Recipe'' = Some (snd pathEntryOrphan0)"
  by (simp add: contentsOrphan0 parse0)
     (simp add: stateOrphan0_def loadPathIndex_def remoteMap_setAll_def pathEntry0_def
        pathEntryOrphan0_def)

subsection \<open>The invariant of the closure is kept\<close>

text \<open>
  The closure starts with no memoized content, and every operation keeps the invariant
  that memoized contents come with loaded state data.
\<close>

lemma memoLoaded_initial: "memoLoaded (localState filePrefix contentProvider blobs maps)"
  by (simp add: memoLoaded_def localState_def)

lemma memoLoaded_setDirty: "memoLoaded (setDirty s)"
  by (simp add: memoLoaded_def setDirty_def)

lemma memoLoaded_iff:
  "memoLoaded s \<longleftrightarrow> (\<forall>cs. contentsAndHash s = Some (Inr cs) \<longrightarrow> (\<exists>sd. innerStateData s = Some (Inr sd)))"
  by (auto simp: memoLoaded_def split: option.splits sum.splits)

lemma memoLoaded_stateData:
  assumes "memoLoaded s"
  shows "memoLoaded (snd (stateData env s))"
proof (cases "innerStateData s")
  case None
  with assms have "\<forall>cs. contentsAndHash s \<noteq> Some (Inr cs)" by (auto simp: memoLoaded_iff)
  then show ?thesis using stateData_frame(3) [of env s] by (simp add: memoLoaded_iff)
next
  case (Some r)
  with assms show ?thesis by (simp add: stateData_loaded)
qed

lemma memoLoaded_getContentAndHash:
  assumes "memoLoaded s"
  shows "memoLoaded (snd (getContentAndHash env s))"
proof (cases "contentsAndHash s")
  case (Some r)
  with assms show ?thesis by (simp add: getContentAndHash_memo)
next
  case None
  obtain r s1 where g: "getContentAndHash env s = (r, s1)" by (cases "getContentAndHash env s")
  have m: "contentsAndHash s1 = Some r" using getContentAndHash_frame(2) [of env s] g by simp
  show ?thesis
  proof (cases r)
    case (Inl e)
    with g m show ?thesis by (simp add: memoLoaded_iff)
  next
    case (Inr cs)
    from getContentAndHash_ok_loaded [OF assms g [unfolded Inr]] g show ?thesis
      by (auto simp: memoLoaded_iff)
  qed
qed

lemma memoLoaded_setHash:
  assumes "memoLoaded s"
  shows "memoLoaded (snd (inMemState_setHash env h s))"
proof -
  obtain r s' where f: "inMemState_setHash env h s = (r, s')" by (cases "inMemState_setHash env h s")
  note c = inMemState_setHash_cases [OF f]
  show ?thesis
  proof (cases r)
    case (Inr u)
    with c(3) f show ?thesis by (auto simp: memoLoaded_iff)
  next
    case (Inl e)
    with c(3) have fail: "fst (stateData env s) = Inl e" by simp
    have "\<forall>cs. contentsAndHash s \<noteq> Some (Inr cs)"
    proof (intro allI notI)
      fix cs assume "contentsAndHash s = Some (Inr cs)"
      with assms obtain sd where "innerStateData s = Some (Inr sd)" by (auto simp: memoLoaded_iff)
      with fail show False by (simp add: stateData_loaded)
    qed
    with c(2) f show ?thesis by (simp add: memoLoaded_iff)
  qed
qed

lemma memoLoaded_calculateHashImpl:
  assumes "memoLoaded s"
  shows "memoLoaded (snd (calculateHashImpl env s))"
proof (cases "dirty s")
  case False
  with assms show ?thesis by (simp add: calculateHashImpl_def)
next
  case True
  obtain r s1 where g: "getContentAndHash env s = (r, s1)" by (cases "getContentAndHash env s")
  have m1: "memoLoaded s1" using memoLoaded_getContentAndHash [OF assms, of env] g by simp
  show ?thesis
  proof (cases r)
    case (Inl e)
    with True g m1 show ?thesis by (simp add: calculateHashImpl_def)
  next
    case (Inr cs)
    with True g memoLoaded_setHash [OF m1] show ?thesis by (simp add: calculateHashImpl_def)
  qed
qed

lemma memoLoaded_cong:
  "contentsAndHash s' = contentsAndHash s \<Longrightarrow> innerStateData s' = innerStateData s \<Longrightarrow>
   memoLoaded s' = memoLoaded s"
  by (simp add: memoLoaded_iff)

lemma memoLoaded_state_set:
  assumes "memoLoaded s"
  shows "memoLoaded (snd (state_set env element s))"
proof -
  obtain r s1 where d: "stateData env s = (r, s1)" by (cases "stateData env s")
  have m1: "memoLoaded s1" using memoLoaded_stateData [OF assms, of env] d by simp
  show ?thesis
  proof (cases r)
    case (Inl e)
    with d m1 show ?thesis by (simp add: state_set_def inMemState_set_def)
  next
    case (Inr sd)
    with d show ?thesis by (simp add: state_set_def inMemState_set_def memoLoaded_setDirty)
  qed
qed

lemma memoLoaded_inMemState_flush:
  assumes "memoLoaded s"
  shows "memoLoaded (snd (inMemState_flush env s))"
proof -
  obtain r s1 where d: "stateData env s = (r, s1)" by (cases "stateData env s")
  have m1: "memoLoaded s1" using memoLoaded_stateData [OF assms, of env] d by simp
  have "memoLoaded (s1\<lparr>remoteMaps := x, events := y\<rparr>)" for x y
    using m1 by (simp add: memoLoaded_iff)
  with d m1 show ?thesis
    by (cases r) (simp_all add: inMemState_flush_def)
qed

lemma memoLoaded_flush:
  assumes "memoLoaded s"
  shows "memoLoaded (snd (flush env s))"
proof (cases "dirty s")
  case False
  have "memoLoaded (s1\<lparr>cacheDirty := False\<rparr>) = memoLoaded s1" for s1
    by (simp add: memoLoaded_iff)
  with False assms memoLoaded_inMemState_flush [OF assms, of env] show ?thesis
    by (cases "inMemState_flush env s") (auto simp: flush_def split: sum.splits)
next
  case True
  let ?s0 = "mkdirp (path_dirname (currentFilePrefix s)) s"
  have m0: "memoLoaded ?s0" using assms by (simp add: memoLoaded_iff mkdirp_fields)
  obtain r s1 where g: "getContentAndHash env ?s0 = (r, s1)" by (cases "getContentAndHash env ?s0")
  have m1: "memoLoaded s1" using memoLoaded_getContentAndHash [OF m0, of env] g by simp
  show ?thesis
  proof (cases r)
    case (Inl e)
    with True g m1 show ?thesis by (simp add: flush_def Let_def)
  next
    case (Inr contents)
    obtain r2 s2 where w: "writeContents (currentContentProvider s1) (currentFilePrefix s1) contents s1 = (r2, s2)"
      by (cases "writeContents (currentContentProvider s1) (currentFilePrefix s1) contents s1")
    have m2: "memoLoaded s2" using w m1
      by (auto simp: writeContents_def Let_def memoLoaded_iff split: if_splits)
    show ?thesis
    proof (cases r2)
      case (Inl e)
      with True g Inr w m2 show ?thesis by (simp add: flush_def Let_def)
    next
      case r2: (Inr u)
      let ?h = "getHashFromHashes env (map contentHash contents)"
      obtain r3 s3 where h: "inMemState_setHash env ?h s2 = (r3, s3)"
        by (cases "inMemState_setHash env ?h s2")
      have m3: "memoLoaded s3" using memoLoaded_setHash [OF m2, of env ?h] h by simp
      show ?thesis
      proof (cases r3)
        case (Inl e)
        with True g Inr w r2 h m3 show ?thesis by (simp add: flush_def Let_def)
      next
        case r3: (Inr u3)
        obtain r4 s4 where f: "inMemState_flush env s3 = (r4, s4)" by (cases "inMemState_flush env s3")
        have m4: "memoLoaded s4" using memoLoaded_inMemState_flush [OF m3, of env] f by simp
        then have "memoLoaded (s4\<lparr>dirty := False\<rparr>)" by (simp add: memoLoaded_iff)
        with True g Inr w r2 h r3 f m4 show ?thesis
          by (cases r4) (simp_all add: flush_def Let_def)
      qed
    qed
  qed
qed

lemma memoLoaded_updateConfig:
  assumes "memoLoaded s" and "updateConfig env args s = (Inr u, s')"
  shows "memoLoaded s'"
proof -
  from updateConfig_ok [OF assms(2)] obtain newProvider contents s1 where
    g: "getContentAndHash env s = (Inr contents, s1)"
    and s': "s' = rename newProvider (tempPrefixOf (currentFilePrefix s)) (path_basename (currentFilePrefix s))
                  (clear (currentContentProvider s) (currentFilePrefix s)
                    (s1\<lparr>events := events s1 @ [EvWriteContents (storageOf newProvider) (tempPrefixOf (currentFilePrefix s))],
                       durable := (durable s)(storageOf newProvider :=
                         (durable s (storageOf newProvider))(tempPrefixOf (currentFilePrefix s) := contents))\<rparr>))
                 \<lparr>currentContentProvider := newProvider\<rparr>"
    by auto
  from getContentAndHash_ok_loaded [OF assms(1) g] show ?thesis
    by (auto simp: s' memoLoaded_iff rename_fields clear_fields)
qed

end
